theory Spec2Isabelle
  imports Complex_Main "HOL-Library.Sublist"
begin

section \<open>Python strings\<close>

text \<open>
  Strings are lists of ASCII characters. \<open>s.lower()\<close> maps the letters A to Z to a to z
  and leaves every other character as it is; \<open>sub in s\<close> is \<^const>\<open>sublist\<close>,
  \<open>s.startswith(p)\<close> is \<^const>\<open>prefix\<close> and \<open>s.endswith(p)\<close> is \<^const>\<open>suffix\<close>.
\<close>

definition ascii_uppercase :: string where
  "ascii_uppercase = ''ABCDEFGHIJKLMNOPQRSTUVWXYZ''"

definition ascii_lowercase :: string where
  "ascii_lowercase = ''abcdefghijklmnopqrstuvwxyz''"

definition digits :: string where
  "digits = ''0123456789''"

definition lower_char :: "char \<Rightarrow> char" where
  "lower_char c =
     (case map_of (zip ascii_uppercase ascii_lowercase) c of None \<Rightarrow> c | Some l \<Rightarrow> l)"

text \<open>The same function read off the bits of the character, for evaluation.\<close>

lemma lower_char_code [code]:
  "lower_char (Char b0 b1 b2 b3 b4 b5 b6 b7) =
     (if \<not> b7 \<and> b6 \<and> \<not> b5 \<and> (b0 \<or> b1 \<or> b2 \<or> b3 \<or> b4)
         \<and> \<not> (b4 \<and> b3 \<and> (b2 \<or> (b1 \<and> b0)))
      then Char b0 b1 b2 b3 b4 True b6 b7
      else Char b0 b1 b2 b3 b4 b5 b6 b7)"
  by (cases b0; cases b1; cases b2; cases b3; cases b4; cases b5; cases b6; cases b7)
     (simp_all add: lower_char_def ascii_uppercase_def ascii_lowercase_def)

definition lower :: "string \<Rightarrow> string" where
  "lower s = map lower_char s"

text \<open>
  \<open>s.replace(old, new)\<close>: every occurrence of \<open>old\<close>, found from left to right without
  overlap, is replaced. With an empty \<open>old\<close> Python puts \<open>new\<close> before every character
  and at the end.
\<close>

fun intersperse_str :: "string \<Rightarrow> string \<Rightarrow> string" where
  "intersperse_str new [] = new"
| "intersperse_str new (c # cs) = new @ c # intersperse_str new cs"

function replace_nonempty :: "string \<Rightarrow> string \<Rightarrow> string \<Rightarrow> string" where
  "replace_nonempty old new [] = []"
| "replace_nonempty old new (c # cs) =
     (if old \<noteq> [] \<and> prefix old (c # cs)
      then new @ replace_nonempty old new (drop (length old) (c # cs))
      else c # replace_nonempty old new cs)"
  by pat_completeness auto
termination
  by (relation "measure (\<lambda>(old, new, s). length s)") (auto simp: neq_Nil_conv)

definition str_replace :: "string \<Rightarrow> string \<Rightarrow> string \<Rightarrow> string" where
  "str_replace s old new =
     (if old = [] then intersperse_str new s else replace_nonempty old new s)"

text \<open>
  Exceptions are values. \<open>template.format(state=value)\<close> copies the template, with
  \<open>{{\<close> and \<open>}}\<close> as one brace each and the field \<open>{state}\<close> replaced by the
  value; a closing brace on its own raises \<open>ValueError\<close>. \<open>simple_format\<close> is
  \<open>None\<close> when the template opens any other field: what \<open>format\<close> then does (it
  raises \<open>KeyError\<close>, \<open>IndexError\<close>, \<open>ValueError\<close> or \<open>AttributeError\<close>, or it
  formats an attribute, an index or a conversion of the value) is left to the world.
\<close>

datatype error = ValueError | KeyError | IndexError | AttributeError

fun emit :: "string \<Rightarrow> (error + string) option \<Rightarrow> (error + string) option" where
  "emit out None = None"
| "emit out (Some (Inl e)) = Some (Inl e)"
| "emit out (Some (Inr formatted)) = Some (Inr (out @ formatted))"

function simple_format :: "string \<Rightarrow> string \<Rightarrow> (error + string) option" where
  "simple_format [] value = Some (Inr [])"
| "simple_format (c # cs) value =
     (if c = CHR ''{''
      then (if prefix ''{'' cs then emit ''{'' (simple_format (drop 1 cs) value)
            else if prefix ''state}'' cs then emit value (simple_format (drop 6 cs) value)
            else None)
      else if c = CHR ''}''
      then (if prefix ''}'' cs then emit ''}'' (simple_format (drop 1 cs) value)
            else Some (Inl ValueError))
      else emit [c] (simple_format cs value))"
  by pat_completeness auto
termination
  by (relation "measure (\<lambda>(template, value). length template)") auto

section \<open>URLs: the parts of \<open>urllib.parse\<close> the crawlers use\<close>

text \<open>
  \<open>urlsplit\<close> follows the library function for URLs without leading blanks, control
  characters or brackets: a scheme is split off at the first colon when what stands
  before it is a letter followed by scheme characters; a network location follows
  \<open>//\<close> and ends before the first of \<open>/\<close>, \<open>?\<close> and \<open>#\<close>; the fragment starts after the
  first \<open>#\<close> of the rest and the query after the first \<open>?\<close> of what is left.
\<close>

record url_parts =
  scheme :: string
  netloc :: string
  path :: string
  query :: string
  fragment :: string

definition is_alpha :: "char \<Rightarrow> bool" where
  "is_alpha c = (c \<in> set ascii_uppercase \<or> c \<in> set ascii_lowercase)"

definition is_digit :: "char \<Rightarrow> bool" where
  "is_digit c = (c \<in> set digits)"

definition scheme_char :: "char \<Rightarrow> bool" where
  "scheme_char c = (is_alpha c \<or> is_digit c \<or> c \<in> set ''+-.'')"

definition split_scheme :: "string \<Rightarrow> string \<times> string" where
  "split_scheme url =
     (let pre = takeWhile (\<lambda>c. c \<noteq> CHR '':'') url in
      if pre \<noteq> [] \<and> length pre < length url \<and> is_alpha (hd pre) \<and> list_all scheme_char pre
      then (lower pre, drop (length pre + 1) url)
      else ([], url))"

definition split_netloc :: "string \<Rightarrow> string \<times> string" where
  "split_netloc url =
     (if prefix ''//'' url
      then (takeWhile (\<lambda>c. c \<notin> set ''/?#'') (drop 2 url),
            dropWhile (\<lambda>c. c \<notin> set ''/?#'') (drop 2 url))
      else ([], url))"

definition urlsplit :: "string \<Rightarrow> url_parts" where
  "urlsplit url =
     (let (sch, rest) = split_scheme url;
          (loc, rest') = split_netloc rest;
          before_frag = takeWhile (\<lambda>c. c \<noteq> CHR ''#'') rest';
          frag = drop (length before_frag + 1) rest';
          p = takeWhile (\<lambda>c. c \<noteq> CHR ''?'') before_frag;
          q = drop (length p + 1) before_frag
      in \<lparr>scheme = sch, netloc = loc, path = p, query = q, fragment = frag\<rparr>)"

text \<open>
  \<open>urlsplit\<close> and \<open>urlparse\<close> raise \<open>ValueError\<close> on a network location that has an
  opening bracket without a closing one, or a closing one without an opening one.
\<close>

definition unbalanced_brackets :: "string \<Rightarrow> bool" where
  "unbalanced_brackets url =
     (let loc = netloc (urlsplit url) in
      (CHR ''['' \<in> set loc \<and> CHR '']'' \<notin> set loc)
      \<or> (CHR '']'' \<in> set loc \<and> CHR ''['' \<notin> set loc))"

section \<open>Link classification (\<open>comprehensive_pdf_discovery_test.py\<close>)\<close>

definition is_pdf_url :: "string \<Rightarrow> bool" where
  "is_pdf_url url = (suffix ''.pdf'' (lower url) \<or> sublist ''.pdf'' (lower url))"

definition relevant_keywords :: "string list" where
  "relevant_keywords =
     [''provider'', ''manual'', ''guide'', ''policy'', ''procedure'',
      ''prior auth'', ''authorization'', ''timely filing'', ''appeals'',
      ''claims'', ''billing'', ''coverage'', ''benefits'', ''forms'',
      ''documents'', ''resources'', ''tools'', ''materials'']"

definition is_relevant_link :: "string \<Rightarrow> string \<Rightarrow> bool" where
  "is_relevant_link text href =
     (let text_lower = lower text;
          href_lower = lower href;
          combined = text_lower @ '' '' @ href_lower
      in list_ex (\<lambda>keyword. sublist keyword combined) relevant_keywords)"

section \<open>The web, the driver and the logger\<close>

text \<open>
  What a crawler meets when it loads a page. A page that loads gives its text and its
  anchors with an \<open>href\<close>, in document order, each as the \<open>href\<close> and the anchor
  text; \<open>Raises\<close> in their place stands for an exception raised while that anchor is
  processed (for instance by \<open>urljoin\<close> on a malformed \<open>href\<close>). \<open>Unreachable\<close> is a
  \<open>driver.get\<close> or a wait for the body that raises.

  The page served and the time the load takes (the pause after it included) may depend
  on the requests the driver has made so far. \<open>urljoin\<close> and the network location that
  \<open>urlparse\<close> gives are functions of the library.

  \<open>urlparse_raises\<close> tells on which URLs \<open>urlparse\<close> raises \<open>ValueError\<close>. The
  regional crawler calls it outside every \<open>try\<close> block, on the first seed and on each
  URL it takes from the queue; there the exception ends the call. (Inside the link loops
  such an exception is a \<open>Raises\<close> item.) \<open>format_other\<close> is what \<open>format\<close> does
  with a template that has a field other than \<open>{state}\<close>.
\<close>

datatype link_item = Anchor string string | Raises

datatype page = Unreachable | Loaded string "link_item list"

record world =
  get_page :: "string list \<Rightarrow> string \<Rightarrow> page"
  latency :: "string list \<Rightarrow> string \<Rightarrow> real"
  urljoin :: "string \<Rightarrow> string \<Rightarrow> string"
  netloc_of :: "string \<Rightarrow> string"
  urlparse_raises :: "string \<Rightarrow> bool"
  format_other :: "string \<Rightarrow> string \<Rightarrow> error + string"

definition str_format :: "world \<Rightarrow> string \<Rightarrow> string \<Rightarrow> error + string" where
  "str_format w template value =
     (case simple_format template value of
        None \<Rightarrow> format_other w template value
      | Some result \<Rightarrow> result)"

text \<open>The messages of the logger, in the order they are written.\<close>

datatype log_event =
    Exploring string int
  | Found_PDF string
  | Error_processing string

text \<open>
  A Python set of strings is the list of its elements without repetition; \<open>add\<close> leaves
  a set that has the element as it is.
\<close>

definition set_add :: "'a \<Rightarrow> 'a list \<Rightarrow> 'a list" where
  "set_add x xs = (if x \<in> set xs then xs else xs @ [x])"

definition domain_allowed :: "world \<Rightarrow> string list \<Rightarrow> string \<Rightarrow> bool" where
  "domain_allowed w allowed_domains url =
     list_ex (\<lambda>domain. sublist domain (netloc_of w url)) allowed_domains"

section \<open>\<open>ComprehensivePDFDiscovery.discover_pdfs_bfs\<close>\<close>

record discovery =
  max_depth :: int
  max_urls_per_payer :: int

record session =
  visited_urls :: "string list"
  log :: "log_event list"
  requests :: "string list"
  clock :: real

record bfs_state = session +
  queue :: "(string \<times> int) list"
  pdfs_discovered :: "string list"

text \<open>The \<open>for link in links\<close> loop of one page, inside the \<open>try\<close> block.\<close>

fun process_links ::
  "world \<Rightarrow> discovery \<Rightarrow> string list \<Rightarrow> string \<Rightarrow> int \<Rightarrow> link_item list \<Rightarrow> bfs_state \<Rightarrow> bfs_state"
where
  "process_links w cfg allowed_domains current_url depth [] s = s"
| "process_links w cfg allowed_domains current_url depth (Raises # links) s =
     s\<lparr>log := log s @ [Error_processing current_url]\<rparr>"
| "process_links w cfg allowed_domains current_url depth (Anchor href text # links) s =
     (let absolute_url = urljoin w current_url href in
      if \<not> domain_allowed w allowed_domains absolute_url
      then process_links w cfg allowed_domains current_url depth links s
      else if is_pdf_url absolute_url
      then process_links w cfg allowed_domains current_url depth links
             (s\<lparr>pdfs_discovered := set_add absolute_url (pdfs_discovered s),
                log := log s @ [Found_PDF absolute_url]\<rparr>)
      else if is_relevant_link text href \<and> depth < max_depth cfg
                \<and> absolute_url \<notin> set (visited_urls s)
      then process_links w cfg allowed_domains current_url depth links
             (s\<lparr>queue := queue s @ [(absolute_url, depth + 1)]\<rparr>)
      else process_links w cfg allowed_domains current_url depth links s)"

text \<open>The body of the \<open>while\<close> loop.\<close>

definition bfs_iteration :: "world \<Rightarrow> discovery \<Rightarrow> string list \<Rightarrow> bfs_state \<Rightarrow> bfs_state" where
  "bfs_iteration w cfg allowed_domains s =
     (case queue s of
        [] \<Rightarrow> s
      | (current_url, depth) # rest \<Rightarrow>
          let s = s\<lparr>queue := rest\<rparr> in
          if current_url \<in> set (visited_urls s) \<or> depth > max_depth cfg then s
          else
            let s = s\<lparr>visited_urls := set_add current_url (visited_urls s),
                      log := log s @ [Exploring current_url depth]\<rparr>;
                pg = get_page w (requests s) current_url;
                s = s\<lparr>clock := clock s + latency w (requests s) current_url,
                      requests := requests s @ [current_url]\<rparr>
            in (case pg of
                  Unreachable \<Rightarrow> s\<lparr>log := log s @ [Error_processing current_url]\<rparr>
                | Loaded page_text links \<Rightarrow>
                    process_links w cfg allowed_domains current_url depth links s))"

definition bfs_running :: "discovery \<Rightarrow> bfs_state \<Rightarrow> bool" where
  "bfs_running cfg s =
     (queue s \<noteq> [] \<and> int (length (visited_urls s)) < max_urls_per_payer cfg)"

lemma process_links_visited [simp]:
  "visited_urls (process_links w cfg al cur d links s) = visited_urls s"
  by (induction w cfg al cur d links s rule: process_links.induct) (simp_all add: Let_def)

lemma process_links_requests [simp]:
  "requests (process_links w cfg al cur d links s) = requests s"
  by (induction w cfg al cur d links s rule: process_links.induct) (simp_all add: Let_def)

lemma process_links_clock [simp]:
  "clock (process_links w cfg al cur d links s) = clock s"
  by (induction w cfg al cur d links s rule: process_links.induct) (simp_all add: Let_def)

lemma bfs_iteration_progress:
  assumes "bfs_running cfg s"
  shows "length (visited_urls (bfs_iteration w cfg al s)) = Suc (length (visited_urls s))
       \<or> (visited_urls (bfs_iteration w cfg al s) = visited_urls s
          \<and> length (queue (bfs_iteration w cfg al s)) < length (queue s))"
  using assms
  by (auto simp: bfs_running_def bfs_iteration_def set_add_def Let_def
           split: list.splits page.splits prod.splits)

function bfs_loop :: "world \<Rightarrow> discovery \<Rightarrow> string list \<Rightarrow> bfs_state \<Rightarrow> bfs_state" where
  "bfs_loop w cfg allowed_domains s =
     (if bfs_running cfg s
      then bfs_loop w cfg allowed_domains (bfs_iteration w cfg allowed_domains s)
      else s)"
  by pat_completeness auto
termination
proof (relation "measures
    [\<lambda>(w, cfg, al, s). nat (max_urls_per_payer cfg - int (length (visited_urls s))),
     \<lambda>(w, cfg, al, s). length (queue s)]")
  show "wf (measures
    [\<lambda>(w, cfg, al, s). nat (max_urls_per_payer cfg - int (length (visited_urls s))),
     \<lambda>(w :: world, cfg :: discovery, al :: string list, s :: bfs_state). length (queue s)])"
    by simp
next
  fix w :: world and cfg :: discovery and allowed_domains :: "string list" and s :: bfs_state
  assume run: "bfs_running cfg s"
  then have "int (length (visited_urls s)) < max_urls_per_payer cfg"
    by (simp add: bfs_running_def)
  with bfs_iteration_progress [OF run, of w allowed_domains]
  show "((w, cfg, allowed_domains, bfs_iteration w cfg allowed_domains s),
         (w, cfg, allowed_domains, s)) \<in> measures
    [\<lambda>(w, cfg, al, s). nat (max_urls_per_payer cfg - int (length (visited_urls s))),
     \<lambda>(w, cfg, al, s). length (queue s)]"
    by auto
qed

declare bfs_loop.simps [simp del]

record bfs_results =
  res_pdfs_discovered :: "string list"
  urls_visited :: "string list"
  total_pdfs :: int
  total_urls_visited :: int

definition bfs_start :: "string list \<Rightarrow> real \<Rightarrow> bfs_state" where
  "bfs_start starting_urls now =
     \<lparr>visited_urls = [], log = [], requests = [], clock = now,
      queue = map (\<lambda>url. (url, 0)) starting_urls, pdfs_discovered = []\<rparr>"

definition bfs_final :: "world \<Rightarrow> discovery \<Rightarrow> string list \<Rightarrow> string list \<Rightarrow> real \<Rightarrow> bfs_state" where
  "bfs_final w cfg starting_urls allowed_domains now =
     bfs_loop w cfg allowed_domains (bfs_start starting_urls now)"

definition discover_pdfs_bfs ::
  "world \<Rightarrow> discovery \<Rightarrow> string list \<Rightarrow> string list \<Rightarrow> real \<Rightarrow> bfs_results" where
  "discover_pdfs_bfs w cfg starting_urls allowed_domains now =
     (let s = bfs_final w cfg starting_urls allowed_domains now in
      \<lparr>res_pdfs_discovered = pdfs_discovered s,
       urls_visited = visited_urls s,
       total_pdfs = int (length (pdfs_discovered s)),
       total_urls_visited = int (length (visited_urls s))\<rparr>)"

section \<open>\<open>ComprehensivePDFDiscovery.test_single_payer\<close>\<close>

definition portal_subdomains :: "string list" where
  "portal_subdomains = [''provider'', ''providers'', ''professional'', ''portal'', ''prov'']"

record payer_results = bfs_results +
  payer_elapsed_time_minutes :: real
  portal_urls_used :: "string list"
  allowed_domains_used :: "string list"

text \<open>
  \<open>portal_urls\<close> is what \<open>discover_provider_portals\<close> returns for the payer; the time
  its requests take is not counted. The error message is the left summand.
\<close>

definition test_single_payer ::
  "world \<Rightarrow> discovery \<Rightarrow> string list \<Rightarrow> string \<Rightarrow> real \<Rightarrow> real \<Rightarrow> string + payer_results" where
  "test_single_payer w cfg portal_urls base_domain time_limit_minutes now =
     (let start_time = now in
      if portal_urls = [] then Inl ''No portal URLs found''
      else
        let allowed_domains =
              [base_domain]
              @ (if \<not> prefix ''www.'' base_domain then [''www.'' @ base_domain] else [])
              @ map (\<lambda>subdomain. subdomain @ ''.'' @ base_domain) portal_subdomains;
            s = bfs_final w cfg portal_urls allowed_domains now;
            results = discover_pdfs_bfs w cfg portal_urls allowed_domains now;
            elapsed_time = clock s - start_time
        in Inr \<lparr>res_pdfs_discovered = res_pdfs_discovered results,
                urls_visited = urls_visited results,
                total_pdfs = total_pdfs results,
                total_urls_visited = total_urls_visited results,
                payer_elapsed_time_minutes = elapsed_time / 60,
                portal_urls_used = portal_urls,
                allowed_domains_used = allowed_domains\<rparr>)"

section \<open>\<open>RegionalEnhancedCrawler\<close>: tables and classifiers\<close>

definition us_states :: "(string \<times> string) list" where
  "us_states =
     [(''AL'', ''Alabama''), (''AK'', ''Alaska''), (''AZ'', ''Arizona''), (''AR'', ''Arkansas''),
      (''CA'', ''California''), (''CO'', ''Colorado''), (''CT'', ''Connecticut''),
      (''DE'', ''Delaware''), (''FL'', ''Florida''), (''GA'', ''Georgia''),
      (''HI'', ''Hawaii''), (''ID'', ''Idaho''), (''IL'', ''Illinois''), (''IN'', ''Indiana''),
      (''IA'', ''Iowa''), (''KS'', ''Kansas''), (''KY'', ''Kentucky''), (''LA'', ''Louisiana''),
      (''ME'', ''Maine''), (''MD'', ''Maryland''), (''MA'', ''Massachusetts''),
      (''MI'', ''Michigan''), (''MN'', ''Minnesota''), (''MS'', ''Mississippi''),
      (''MO'', ''Missouri''), (''MT'', ''Montana''), (''NE'', ''Nebraska''), (''NV'', ''Nevada''),
      (''NH'', ''New Hampshire''), (''NJ'', ''New Jersey''), (''NM'', ''New Mexico''),
      (''NY'', ''New York''), (''NC'', ''North Carolina''), (''ND'', ''North Dakota''),
      (''OH'', ''Ohio''), (''OK'', ''Oklahoma''), (''OR'', ''Oregon''), (''PA'', ''Pennsylvania''),
      (''RI'', ''Rhode Island''), (''SC'', ''South Carolina''), (''SD'', ''South Dakota''),
      (''TN'', ''Tennessee''), (''TX'', ''Texas''), (''UT'', ''Utah''), (''VT'', ''Vermont''),
      (''VA'', ''Virginia''), (''WA'', ''Washington''), (''WV'', ''West Virginia''),
      (''WI'', ''Wisconsin''), (''WY'', ''Wyoming''), (''DC'', ''District of Columbia'')]"

definition regional_keywords :: "string list" where
  "regional_keywords =
     [''state specific'', ''state-specific'', ''by state'', ''regional'',
      ''medicaid'', ''medicare'', ''state plan'', ''local coverage'',
      ''geographic'', ''territory'', ''area'', ''zone'']"

text \<open>
  The regular expressions of \<open>regional_url_indicators\<close> are sequences of one-character
  items: a literal, an optional literal (\<open>[s]?\<close>), a lower-case or an upper-case ASCII
  letter (\<open>[a-z]\<close>, \<open>[A-Z]\<close>) and one character of a set (\<open>[_-]\<close>). \<open>re_search\<close>
  looks for a match starting anywhere in the string.
\<close>

datatype re_atom = Lit char | Opt char | Lower_letter | Upper_letter | One_of string

fun atom_matches :: "re_atom \<Rightarrow> char \<Rightarrow> bool" where
  "atom_matches (Lit c) x = (x = c)"
| "atom_matches (Opt c) x = (x = c)"
| "atom_matches Lower_letter x = (x \<in> set ascii_lowercase)"
| "atom_matches Upper_letter x = (x \<in> set ascii_uppercase)"
| "atom_matches (One_of cs) x = (x \<in> set cs)"

fun re_match_here :: "re_atom list \<Rightarrow> string \<Rightarrow> bool" where
  "re_match_here [] s = True"
| "re_match_here (Opt c # ps) [] = re_match_here ps []"
| "re_match_here (Opt c # ps) (x # xs) =
     ((x = c \<and> re_match_here ps xs) \<or> re_match_here ps (x # xs))"
| "re_match_here (a # ps) [] = False"
| "re_match_here (a # ps) (x # xs) = (atom_matches a x \<and> re_match_here ps xs)"

fun re_search :: "re_atom list \<Rightarrow> string \<Rightarrow> bool" where
  "re_search ps [] = re_match_here ps []"
| "re_search ps (x # xs) = (re_match_here ps (x # xs) \<or> re_search ps xs)"

definition regional_url_indicators :: "re_atom list list" where
  "regional_url_indicators =
     [map Lit ''/state'' @ [Opt CHR ''s'', Lit CHR ''/''],
      map Lit ''/region'' @ [Opt CHR ''s'', Lit CHR ''/''],
      map Lit ''/area'' @ [Opt CHR ''s'', Lit CHR ''/''],
      map Lit ''/local/'',
      map Lit ''/geographic/'',
      [Lit CHR ''/'', Lower_letter, Lower_letter, Lit CHR ''/''],
      [Lit CHR ''/'', Upper_letter, Upper_letter, One_of ''_-''],
      map Lit ''medicaid'',
      map Lit ''medicare'',
      map Lit ''state'' @ [One_of ''_-''] @ map Lit ''specific'']"

definition detect_regional_indicators :: "string \<Rightarrow> string \<Rightarrow> string list" where
  "detect_regional_indicators url text =
     (let indicators = [];
          url_lower = lower url;
          indicators = fold (\<lambda>pattern ind.
              if re_search pattern url_lower then set_add ''regional_url_pattern'' ind else ind)
            regional_url_indicators indicators;
          indicators = fold (\<lambda>state_code ind.
              if sublist (''/'' @ lower state_code @ ''/'') url_lower
                 \<or> sublist (state_code @ ''_'') url_lower
              then set_add (''state_'' @ state_code) ind else ind)
            (map fst us_states) indicators;
          text_lower = lower text;
          indicators = fold (\<lambda>keyword ind.
              if sublist keyword text_lower
              then set_add (''keyword_'' @ str_replace keyword '' '' ''_'') ind else ind)
            regional_keywords indicators;
          indicators = fold (\<lambda>(state_code, state_name) ind.
              if sublist (lower state_name) text_lower
              then set_add (''state_'' @ state_code) ind else ind)
            us_states indicators
      in indicators)"

definition high_value_terms :: "string list" where
  "high_value_terms =
     [''provider portal'', ''state portal'', ''select your state'', ''choose state'',
      ''by location'']"

definition score_regional_relevance :: "string \<Rightarrow> string \<Rightarrow> int" where
  "score_regional_relevance url text =
     (let score = 0;
          url_lower = lower url;
          text_lower = lower text;
          score = (if list_ex (\<lambda>pattern. re_search pattern url_lower) regional_url_indicators
                   then score + 5 else score);
          score = fold (\<lambda>keyword sc. if sublist keyword text_lower then sc + 2 else sc)
                    regional_keywords score;
          state_mentions = int (length (filter (\<lambda>state_name. sublist (lower state_name) text_lower)
                                  (map snd us_states)));
          score = score + min state_mentions 10;
          score = fold (\<lambda>term sc. if sublist term text_lower then sc + 3 else sc)
                    high_value_terms score
      in score)"

text \<open>
  \<open>generate_state_specific_urls\<close>. The f-strings give templates that hold the base
  domain and the field \<open>{state}\<close>; each is filled by \<open>format\<close>, first with the
  lowercased code and then with the name of the state. \<open>us_states[state_code]\<close> raises
  \<open>KeyError\<close> for a code that the table lacks. The first exception ends the call.
\<close>

definition url_patterns :: "string \<Rightarrow> string list" where
  "url_patterns base_domain =
     [''https://www.'' @ base_domain @ ''/providers/{state}/'',
      ''https://provider.'' @ base_domain @ ''/{state}/'',
      ''https://providers.'' @ base_domain @ ''/{state}/'',
      ''https://www.'' @ base_domain @ ''/state/{state}/'',
      ''https://www.'' @ base_domain @ ''/regional/{state}/'',
      ''https://www.'' @ base_domain @ ''/{state}/providers/'',
      ''https://www.'' @ base_domain @ ''/medicaid/{state}/'',
      ''https://www.'' @ base_domain @ ''/medicare/{state}/'']"

definition priority_states :: "string list" where
  "priority_states = [''CA'', ''TX'', ''FL'', ''NY'', ''PA'', ''IL'', ''OH'', ''GA'', ''NC'', ''MI'']"

fun fill_patterns :: "world \<Rightarrow> string list \<Rightarrow> string \<Rightarrow> string \<Rightarrow> error + string list" where
  "fill_patterns w [] code name = Inr []"
| "fill_patterns w (pattern # patterns) code name =
     (case str_format w pattern code of
        Inl e \<Rightarrow> Inl e
      | Inr url_with_code \<Rightarrow>
          (case str_format w pattern name of
             Inl e \<Rightarrow> Inl e
           | Inr url_with_name \<Rightarrow>
               (case fill_patterns w patterns code name of
                  Inl e \<Rightarrow> Inl e
                | Inr candidate_urls \<Rightarrow> Inr (url_with_code # url_with_name # candidate_urls))))"

fun generate_for_states :: "world \<Rightarrow> string list \<Rightarrow> string list \<Rightarrow> error + string list" where
  "generate_for_states w patterns [] = Inr []"
| "generate_for_states w patterns (state_code # codes) =
     (case map_of us_states state_code of
        None \<Rightarrow> Inl KeyError
      | Some state_name \<Rightarrow>
          (case fill_patterns w patterns (lower state_code)
                  (str_replace (lower state_name) '' '' ''-'') of
             Inl e \<Rightarrow> Inl e
           | Inr state_urls \<Rightarrow>
               (case generate_for_states w patterns codes of
                  Inl e \<Rightarrow> Inl e
                | Inr candidate_urls \<Rightarrow> Inr (state_urls @ candidate_urls))))"

definition generate_state_specific_urls :: "world \<Rightarrow> string \<Rightarrow> string \<Rightarrow> error + string list" where
  "generate_state_specific_urls w base_url base_domain =
     generate_for_states w (url_patterns base_domain) priority_states"

section \<open>\<open>RegionalEnhancedCrawler.discover_regional_content_bfs\<close>\<close>

record relevant_page =
  page_url :: string
  page_score :: int
  page_indicators :: "string list"
  page_depth :: int

record regional_state = session +
  frontier :: "(string \<times> int \<times> int) list"
  urls_processed :: int
  all_pdfs :: "string list"
  regional_pdfs :: "(string \<times> string list) list"
  relevant_pages :: "relevant_page list"
  state_coverage :: "string list"

text \<open>\<open>regional_pdfs[state_code].append(url)\<close> on a \<open>defaultdict(list)\<close>.\<close>

fun dict_append :: "string \<Rightarrow> string \<Rightarrow> (string \<times> string list) list \<Rightarrow> (string \<times> string list) list" where
  "dict_append k v [] = [(k, [v])]"
| "dict_append k v ((k', vs) # d) =
     (if k = k' then (k', vs @ [v]) # d else (k', vs) # dict_append k v d)"

text \<open>
  The PDF of a link is filed under every state its indicators name:
  \<open>indicator.split('_')[1]\<close> is what stands between the first and the second underscore.
\<close>

definition categorize_pdf :: "string \<Rightarrow> string list \<Rightarrow> (string \<times> string list) list
    \<Rightarrow> (string \<times> string list) list" where
  "categorize_pdf absolute_url pdf_indicators d =
     fold (\<lambda>indicator d.
         if prefix ''state_'' indicator
         then (let state_code = takeWhile (\<lambda>c. c \<noteq> CHR ''_'') (drop 6 indicator) in
               if state_code \<in> set (map fst us_states)
               then dict_append state_code absolute_url d else d)
         else d)
       pdf_indicators d"

fun regional_links ::
  "world \<Rightarrow> int \<Rightarrow> string list \<Rightarrow> string \<Rightarrow> int \<Rightarrow> link_item list \<Rightarrow> regional_state
    \<Rightarrow> regional_state"
where
  "regional_links w self_max_depth allowed_domains current_url depth [] s = s"
| "regional_links w self_max_depth allowed_domains current_url depth (Raises # links) s =
     s\<lparr>log := log s @ [Error_processing current_url]\<rparr>"
| "regional_links w self_max_depth allowed_domains current_url depth (Anchor href text # links) s =
     (let link_text = lower text;
          absolute_url = urljoin w current_url href in
      if \<not> domain_allowed w allowed_domains absolute_url
      then regional_links w self_max_depth allowed_domains current_url depth links s
      else if suffix ''.pdf'' (lower absolute_url) \<or> sublist ''.pdf'' (lower absolute_url)
      then
        (let pdf_indicators = detect_regional_indicators absolute_url link_text in
         regional_links w self_max_depth allowed_domains current_url depth links
           (s\<lparr>all_pdfs := all_pdfs s @ [absolute_url],
              regional_pdfs := categorize_pdf absolute_url pdf_indicators (regional_pdfs s),
              log := log s @ [Found_PDF absolute_url]\<rparr>))
      else
        (let link_regional_score = score_regional_relevance absolute_url link_text in
         if link_regional_score \<ge> 3 \<and> depth < self_max_depth
            \<and> absolute_url \<notin> set (visited_urls s)
         then regional_links w self_max_depth allowed_domains current_url depth links
                (s\<lparr>frontier := frontier s @ [(absolute_url, depth + 1, link_regional_score)]\<rparr>)
         else regional_links w self_max_depth allowed_domains current_url depth links s))"

text \<open>What the \<open>try\<close> block does with a page that loaded.\<close>

definition regional_page ::
  "world \<Rightarrow> int \<Rightarrow> string list \<Rightarrow> string \<Rightarrow> int \<Rightarrow> string \<Rightarrow> link_item list
    \<Rightarrow> regional_state \<Rightarrow> regional_state" where
  "regional_page w self_max_depth allowed_domains current_url depth page_text links s =
     (let regional_indicators = detect_regional_indicators current_url page_text;
          page_regional_score = score_regional_relevance current_url page_text;
          s = s\<lparr>state_coverage := fold (\<lambda>state_code cov.
                  if (''state_'' @ state_code) \<in> set regional_indicators
                  then set_add state_code cov else cov)
                (map fst us_states) (state_coverage s)\<rparr>;
          s = regional_links w self_max_depth allowed_domains current_url depth links s
      in if Raises \<in> set links then s
         else if page_regional_score \<ge> 5
         then s\<lparr>relevant_pages := relevant_pages s @
                 [\<lparr>page_url = current_url, page_score = page_regional_score,
                   page_indicators = regional_indicators, page_depth = depth\<rparr>]\<rparr>
         else s)"

text \<open>
  The body of the \<open>while\<close> loop. \<open>urlparse(current_url)\<close> stands before the
  \<open>try\<close> block: when it raises, the iteration ends with the exception, which is the
  second component of the result.
\<close>

definition regional_iteration ::
  "world \<Rightarrow> int \<Rightarrow> string list \<Rightarrow> regional_state \<Rightarrow> regional_state \<times> error option" where
  "regional_iteration w self_max_depth allowed_domains s =
     (case frontier s of
        [] \<Rightarrow> (s, None)
      | (current_url, depth, regional_score) # rest \<Rightarrow>
          let s = s\<lparr>frontier := rest\<rparr> in
          if current_url \<in> set (visited_urls s) \<or> depth > self_max_depth then (s, None)
          else
            let s = s\<lparr>visited_urls := set_add current_url (visited_urls s),
                      urls_processed := urls_processed s + 1\<rparr> in
            if urlparse_raises w current_url then (s, Some ValueError)
            else if \<not> domain_allowed w allowed_domains current_url then (s, None)
            else
              let s = s\<lparr>log := log s @ [Exploring current_url depth]\<rparr>;
                  pg = get_page w (requests s) current_url;
                  s = s\<lparr>clock := clock s + latency w (requests s) current_url,
                        requests := requests s @ [current_url]\<rparr>
              in (case pg of
                    Unreachable \<Rightarrow> (s\<lparr>log := log s @ [Error_processing current_url]\<rparr>, None)
                  | Loaded page_text links \<Rightarrow>
                      (regional_page w self_max_depth allowed_domains current_url depth
                         page_text links s, None)))"

definition max_urls :: int where
  "max_urls = 50"

definition regional_running :: "real \<Rightarrow> real \<Rightarrow> regional_state \<Rightarrow> bool" where
  "regional_running start_time max_time_seconds s =
     (frontier s \<noteq> [] \<and> urls_processed s < max_urls
      \<and> clock s - start_time < max_time_seconds)"

lemma regional_links_unchanged [simp]:
  "visited_urls (regional_links w m al cur d links s) = visited_urls s"
  "requests (regional_links w m al cur d links s) = requests s"
  "clock (regional_links w m al cur d links s) = clock s"
  "urls_processed (regional_links w m al cur d links s) = urls_processed s"
  "state_coverage (regional_links w m al cur d links s) = state_coverage s"
  by (induction w m al cur d links s rule: regional_links.induct) (simp_all add: Let_def)

lemma regional_page_unchanged [simp]:
  "visited_urls (regional_page w m al cur d page_text links s) = visited_urls s"
  "requests (regional_page w m al cur d page_text links s) = requests s"
  "clock (regional_page w m al cur d page_text links s) = clock s"
  "urls_processed (regional_page w m al cur d page_text links s) = urls_processed s"
  by (simp_all add: regional_page_def Let_def)

lemma regional_iteration_progress:
  assumes "regional_running t0 tmax s"
  shows "urls_processed (fst (regional_iteration w m al s)) = urls_processed s + 1
       \<or> (urls_processed (fst (regional_iteration w m al s)) = urls_processed s
          \<and> length (frontier (fst (regional_iteration w m al s))) < length (frontier s))"
  using assms
  by (auto simp: regional_running_def regional_iteration_def Let_def
           split: list.splits page.splits prod.splits)

text \<open>
  The loop. It ends when its condition is false, or with the exception of an iteration;
  the state is then the state of the session when the exception was raised.
\<close>

function regional_loop ::
  "world \<Rightarrow> int \<Rightarrow> string list \<Rightarrow> real \<Rightarrow> real \<Rightarrow> regional_state
    \<Rightarrow> regional_state \<times> error option" where
  "regional_loop w self_max_depth allowed_domains start_time max_time_seconds s =
     (if regional_running start_time max_time_seconds s
      then (case snd (regional_iteration w self_max_depth allowed_domains s) of
              None \<Rightarrow>
                regional_loop w self_max_depth allowed_domains start_time max_time_seconds
                  (fst (regional_iteration w self_max_depth allowed_domains s))
            | Some e \<Rightarrow> (fst (regional_iteration w self_max_depth allowed_domains s), Some e))
      else (s, None))"
  by pat_completeness auto
termination
proof (relation "measures
    [\<lambda>(w, m, al, t0, tmax, s). nat (max_urls - urls_processed s),
     \<lambda>(w, m, al, t0, tmax, s). length (frontier s)]")
  show "wf (measures
    [\<lambda>(w, m, al, t0, tmax, s). nat (max_urls - urls_processed s),
     \<lambda>(w :: world, m :: int, al :: string list, t0 :: real, tmax :: real, s :: regional_state).
        length (frontier s)])"
    by simp
next
  fix w :: world and self_max_depth :: int and allowed_domains :: "string list"
    and start_time max_time_seconds :: real and s :: regional_state
  assume run: "regional_running start_time max_time_seconds s"
  then have "urls_processed s < max_urls"
    by (simp add: regional_running_def)
  with regional_iteration_progress [OF run, of w self_max_depth allowed_domains]
  show "((w, self_max_depth, allowed_domains, start_time, max_time_seconds,
          fst (regional_iteration w self_max_depth allowed_domains s)),
         (w, self_max_depth, allowed_domains, start_time, max_time_seconds, s)) \<in> measures
    [\<lambda>(w, m, al, t0, tmax, s). nat (max_urls - urls_processed s),
     \<lambda>(w, m, al, t0, tmax, s). length (frontier s)]"
    by auto
qed

declare regional_loop.simps [simp del]

text \<open>
  The queue before the loop: the seeds at depth 0, then, when there is a seed, the first
  twenty state URLs generated for the domain of the first seed. \<open>urlparse\<close> of the
  first seed and the generation of the URLs can raise, and no \<open>try\<close> block is around
  them.
\<close>

definition base_domain_of :: "world \<Rightarrow> string \<Rightarrow> string" where
  "base_domain_of w first_url =
     str_replace (str_replace (str_replace (netloc_of w first_url) ''www.'' [])
       ''provider.'' []) ''providers.'' []"

definition initial_frontier :: "world \<Rightarrow> string list \<Rightarrow> error + (string \<times> int \<times> int) list" where
  "initial_frontier w starting_urls =
     (let seeds = map (\<lambda>url. (url, 0, 0)) starting_urls in
      case starting_urls of
        [] \<Rightarrow> Inr seeds
      | first_url # others \<Rightarrow>
          if urlparse_raises w first_url then Inl ValueError
          else
            (case generate_state_specific_urls w first_url (base_domain_of w first_url) of
               Inl e \<Rightarrow> Inl e
             | Inr state_urls \<Rightarrow> Inr (seeds @ map (\<lambda>url. (url, 1, 5)) (take 20 state_urls))))"

record regional_results =
  company_name :: string
  elapsed_time_minutes :: real
  res_urls_processed :: int
  total_pdfs_found :: int
  res_regional_pdfs :: "(string \<times> string list) list"
  res_state_coverage :: "string list"
  states_covered_count :: int
  res_relevant_pages :: "relevant_page list"
  res_all_pdfs :: "string list"
  regional_completeness :: real

text \<open>
  The state of the session at the end of the call, and the exception if the call ends
  with one. \<open>visited\<close> is \<open>self.visited_urls\<close> at the call (the crawler keeps it from
  one call to the next) and \<open>now\<close> the time of the call.
\<close>

definition regional_final ::
  "world \<Rightarrow> int \<Rightarrow> string list \<Rightarrow> string list \<Rightarrow> string list \<Rightarrow> real \<Rightarrow> real
    \<Rightarrow> regional_state \<times> error option" where
  "regional_final w self_max_depth visited starting_urls allowed_domains max_time_minutes now =
     (let start_time = now;
          max_time_seconds = max_time_minutes * 60;
          s = \<lparr>visited_urls = visited, log = [], requests = [], clock = now,
               frontier = map (\<lambda>url. (url, 0, 0)) starting_urls, urls_processed = 0,
               all_pdfs = [], regional_pdfs = [], relevant_pages = [], state_coverage = []\<rparr> in
      case initial_frontier w starting_urls of
        Inl e \<Rightarrow> (s, Some e)
      | Inr initial_queue \<Rightarrow>
          regional_loop w self_max_depth allowed_domains start_time max_time_seconds
            (s\<lparr>frontier := initial_queue\<rparr>))"

definition compile_results :: "string \<Rightarrow> real \<Rightarrow> regional_state \<Rightarrow> regional_results" where
  "compile_results name start_time s =
     (let elapsed_time = clock s - start_time in
      \<lparr>company_name = name,
       elapsed_time_minutes = elapsed_time / 60,
       res_urls_processed = urls_processed s,
       total_pdfs_found = int (length (all_pdfs s)),
       res_regional_pdfs = regional_pdfs s,
       res_state_coverage = state_coverage s,
       states_covered_count = int (length (state_coverage s)),
       res_relevant_pages = relevant_pages s,
       res_all_pdfs = all_pdfs s,
       regional_completeness =
         (if state_coverage s \<noteq> [] then real (length (state_coverage s)) / 50 else 0)\<rparr>)"

text \<open>The result of the call: none when it ends with an exception.\<close>

definition discover_regional_content_bfs ::
  "world \<Rightarrow> int \<Rightarrow> string list \<Rightarrow> string list \<Rightarrow> string list \<Rightarrow> string \<Rightarrow> real \<Rightarrow> real
    \<Rightarrow> regional_results option" where
  "discover_regional_content_bfs w self_max_depth visited starting_urls allowed_domains name
      max_time_minutes now =
     (case regional_final w self_max_depth visited starting_urls allowed_domains
             max_time_minutes now of
        (s, None) \<Rightarrow> Some (compile_results name now s)
      | (s, Some e) \<Rightarrow> None)"

section \<open>Notions used in the statements\<close>

text \<open>
  Reading the log: the URLs explored with their depths, and for every PDF found the
  depth of the page that was being explored when it was found.
\<close>

fun explored :: "log_event list \<Rightarrow> (string \<times> int) list" where
  "explored [] = []"
| "explored (Exploring url depth # es) = (url, depth) # explored es"
| "explored (e # es) = explored es"

fun discovery_depths :: "int option \<Rightarrow> log_event list \<Rightarrow> (string \<times> int option) list" where
  "discovery_depths found_at [] = []"
| "discovery_depths found_at (Exploring url depth # es) = discovery_depths (Some depth) es"
| "discovery_depths found_at (Found_PDF url # es) =
     (url, found_at) # discovery_depths found_at es"
| "discovery_depths found_at (Error_processing url # es) = discovery_depths found_at es"

fun last_depth :: "int option \<Rightarrow> log_event list \<Rightarrow> int option" where
  "last_depth found_at [] = found_at"
| "last_depth found_at (Exploring url depth # es) = last_depth (Some depth) es"
| "last_depth found_at (e # es) = last_depth found_at es"

text \<open>
  The specification's reading of the classifiers, for comparison with the code: a
  document is a URL whose path or query contains \<open>.pdf\<close>; the topical score counts
  the keywords of the specification's list found in the lowercased anchor text and URL;
  a state counts when its name or code stands as a whole token, delimited by the ends of
  the string or by characters that are neither letters nor digits.
\<close>

definition spec_is_document :: "string \<Rightarrow> bool" where
  "spec_is_document url =
     (sublist ''.pdf'' (lower (path (urlsplit url)))
      \<or> sublist ''.pdf'' (lower (query (urlsplit url))))"

definition spec_keywords :: "string list" where
  "spec_keywords =
     [''provider'', ''manual'', ''guide'', ''policy'', ''procedure'',
      ''prior auth'', ''authorization'', ''timely filing'', ''appeals'',
      ''claims'', ''billing'', ''coverage'', ''benefits'', ''forms'']"

definition spec_topical_score :: "string \<Rightarrow> string \<Rightarrow> nat" where
  "spec_topical_score anchor_text url =
     length (filter (\<lambda>keyword. sublist keyword (lower (anchor_text @ url))) spec_keywords)"

definition brace_free :: "string \<Rightarrow> bool" where
  "brace_free s = (CHR ''{'' \<notin> set s \<and> CHR ''}'' \<notin> set s)"

definition is_alnum :: "char \<Rightarrow> bool" where
  "is_alnum c = (is_alpha c \<or> is_digit c)"

fun occurs_as_token :: "bool \<Rightarrow> string \<Rightarrow> string \<Rightarrow> bool" where
  "occurs_as_token at_boundary tok [] = (at_boundary \<and> tok = [])"
| "occurs_as_token at_boundary tok (c # cs) =
     ((at_boundary \<and> prefix tok (c # cs)
        \<and> (case drop (length tok) (c # cs) of [] \<Rightarrow> True | d # rest \<Rightarrow> \<not> is_alnum d))
      \<or> occurs_as_token (\<not> is_alnum c) tok cs)"

definition spec_whole_token :: "string \<Rightarrow> string \<Rightarrow> bool" where
  "spec_whole_token tok s = occurs_as_token True tok s"

text \<open>Invariants of the loops, and what the link loop adds to the queue.\<close>

definition depth_ok :: "int \<Rightarrow> bfs_state \<Rightarrow> bool" where
  "depth_ok m s =
     (list_all (\<lambda>(u, d). d \<le> m) (explored (log s))
      \<and> list_all (\<lambda>(u, od). case od of None \<Rightarrow> False | Some d \<Rightarrow> d \<le> m)
           (discovery_depths None (log s))
      \<and> map fst (explored (log s)) = requests s)"

definition link_task :: "world \<Rightarrow> discovery \<Rightarrow> string list \<Rightarrow> string \<Rightarrow> int \<Rightarrow> link_item list
    \<Rightarrow> string \<times> int \<Rightarrow> bool" where
  "link_task w cfg allowed_domains current_url depth links task =
     (snd task = depth + 1 \<and> depth < max_depth cfg
      \<and> (\<exists>href anchor_text. Anchor href anchor_text \<in> set links
            \<and> fst task = urljoin w current_url href
            \<and> is_relevant_link anchor_text href
            \<and> \<not> is_pdf_url (fst task)
            \<and> domain_allowed w allowed_domains (fst task)))"

definition regional_step :: "world \<Rightarrow> int \<Rightarrow> string list \<Rightarrow> regional_state \<Rightarrow> regional_state" where
  "regional_step w self_max_depth allowed_domains s =
     fst (regional_iteration w self_max_depth allowed_domains s)"

definition fetched_ok :: "world \<Rightarrow> string list \<Rightarrow> regional_state \<Rightarrow> bool" where
  "fetched_ok w allowed_domains s =
     (distinct (requests s) \<and> set (requests s) \<subseteq> set (visited_urls s)
      \<and> list_all (domain_allowed w allowed_domains) (requests s))"

definition seeds_or_allowed :: "world \<Rightarrow> string list \<Rightarrow> string list \<Rightarrow> bfs_state \<Rightarrow> bool" where
  "seeds_or_allowed w starting_urls allowed_domains s =
     (list_all (\<lambda>url. url \<in> set starting_urls \<or> domain_allowed w allowed_domains url)
        (requests s)
      \<and> list_all (\<lambda>task. fst task \<in> set starting_urls \<or> domain_allowed w allowed_domains (fst task))
          (queue s))"

text \<open>
  Small webs on which the crawlers are run: two pages that link to each other; a portal
  page with a manual, an unrelated link and a link to tools; a page about Ohio whose
  load takes ninety seconds; a portal on a foreign host that links to a host whose name
  ends like the allowed one; and a web whose every page loads in 25 seconds and links
  one level deeper.
\<close>

definition cyclic_web :: world where
  "cyclic_web =
     \<lparr>get_page = (\<lambda>reqs url.
         if url = ''https://x.test/a''
         then Loaded ''page a'' [Anchor ''https://x.test/b'' ''Provider guide B'']
         else if url = ''https://x.test/b''
         then Loaded ''page b'' [Anchor ''https://x.test/a'' ''Provider guide A'',
                                 Anchor ''https://x.test/b.pdf'' ''Manual'']
         else Unreachable),
       latency = (\<lambda>reqs url. 2),
       urljoin = (\<lambda>base href. href),
       netloc_of = (\<lambda>url. netloc (urlsplit url)),
       urlparse_raises = unbalanced_brackets,
       format_other = (\<lambda>template value. Inl KeyError)\<rparr>"

definition small_cfg :: discovery where
  "small_cfg = \<lparr>max_depth = 2, max_urls_per_payer = 30\<rparr>"

definition scenario_web :: world where
  "scenario_web =
     \<lparr>get_page = (\<lambda>reqs url.
         if url = ''https://x.test/''
         then Loaded ''Provider home''
                [Anchor ''https://x.test/manual.pdf'' ''OH Provider Manual'',
                 Anchor ''https://x.test/other/'' ''click here'',
                 Anchor ''https://x.test/tools/'' ''Tools'']
         else Unreachable),
       latency = (\<lambda>reqs url. 2),
       urljoin = (\<lambda>base href. href),
       netloc_of = (\<lambda>url. netloc (urlsplit url)),
       urlparse_raises = unbalanced_brackets,
       format_other = (\<lambda>template value. Inl KeyError)\<rparr>"

definition scenario_cfg :: discovery where
  "scenario_cfg = \<lparr>max_depth = 1, max_urls_per_payer = 30\<rparr>"

definition ohio_web :: world where
  "ohio_web =
     \<lparr>get_page = (\<lambda>reqs url.
         if url = ''https://x.test/''
         then Loaded ''Ohio Medicaid''
                [Anchor ''https://x.test/OH_Manual.pdf'' ''Ohio Manual'',
                 Anchor ''https://x.test/oh/'' ''Ohio Medicaid'']
         else Unreachable),
       latency = (\<lambda>reqs url. 90),
       urljoin = (\<lambda>base href. href),
       netloc_of = (\<lambda>url. netloc (urlsplit url)),
       urlparse_raises = unbalanced_brackets,
       format_other = (\<lambda>template value. Inl KeyError)\<rparr>"

definition stray_web :: world where
  "stray_web =
     \<lparr>get_page = (\<lambda>reqs url.
         if url = ''https://portal.example/''
         then Loaded ''Portal'' [Anchor ''https://notx.test/provider/'' ''Provider portal'']
         else Unreachable),
       latency = (\<lambda>reqs url. 2),
       urljoin = (\<lambda>base href. href),
       netloc_of = (\<lambda>url. netloc (urlsplit url)),
       urlparse_raises = unbalanced_brackets,
       format_other = (\<lambda>template value. Inl KeyError)\<rparr>"

definition slow_web :: world where
  "slow_web =
     \<lparr>get_page = (\<lambda>reqs url. Loaded ''Providers'' [Anchor (url @ ''p/'') ''Provider pages'']),
       latency = (\<lambda>reqs url. 25),
       urljoin = (\<lambda>base href. href),
       netloc_of = (\<lambda>url. netloc (urlsplit url)),
       urlparse_raises = unbalanced_brackets,
       format_other = (\<lambda>template value. Inl KeyError)\<rparr>"

section \<open>The loop of \<open>discover_pdfs_bfs\<close>\<close>

lemma bfs_loop_invariant:
  assumes "I s"
    and step: "\<And>s. I s \<Longrightarrow> bfs_running cfg s \<Longrightarrow> I (bfs_iteration w cfg al s)"
  shows "I (bfs_loop w cfg al s)"
  using assms
proof (induction w cfg al s rule: bfs_loop.induct)
  case (1 w cfg al s)
  show ?case
  proof (cases "bfs_running cfg s")
    case True
    have "I (bfs_iteration w cfg al s)"
      using "1.prems" True by blast
    then have "I (bfs_loop w cfg al (bfs_iteration w cfg al s))"
      by (rule "1.IH" [OF True _ "1.prems"(2)])
    then show ?thesis
      using True by (subst bfs_loop.simps) simp
  next
    case False
    with "1.prems" show ?thesis by (subst bfs_loop.simps) simp
  qed
qed

lemma bfs_loop_stops: "\<not> bfs_running cfg (bfs_loop w cfg al s)"
proof (induction w cfg al s rule: bfs_loop.induct)
  case (1 w cfg al s)
  then show ?case by (subst bfs_loop.simps) simp
qed

lemma bfs_loop_iterations:
  "\<exists>n. bfs_loop w cfg al s = (bfs_iteration w cfg al ^^ n) s
     \<and> (\<forall>k<n. bfs_running cfg ((bfs_iteration w cfg al ^^ k) s))"
proof (induction w cfg al s rule: bfs_loop.induct)
  case (1 w cfg al s)
  show ?case
  proof (cases "bfs_running cfg s")
    case True
    from 1 [OF True] obtain n where
      n: "bfs_loop w cfg al (bfs_iteration w cfg al s)
            = (bfs_iteration w cfg al ^^ n) (bfs_iteration w cfg al s)"
      "\<forall>k<n. bfs_running cfg ((bfs_iteration w cfg al ^^ k) (bfs_iteration w cfg al s))"
      by blast
    have "bfs_loop w cfg al s = (bfs_iteration w cfg al ^^ Suc n) s"
      using True n(1) by (subst bfs_loop.simps) (simp add: funpow_swap1)
    moreover have "\<forall>k<Suc n. bfs_running cfg ((bfs_iteration w cfg al ^^ k) s)"
    proof (intro allI impI)
      fix k assume "k < Suc n"
      show "bfs_running cfg ((bfs_iteration w cfg al ^^ k) s)"
      proof (cases k)
        case 0
        with True show ?thesis by simp
      next
        case (Suc j)
        with \<open>k < Suc n\<close> n(2) show ?thesis by (simp add: funpow_swap1)
      qed
    qed
    ultimately show ?thesis by blast
  next
    case False
    then have "bfs_loop w cfg al s = (bfs_iteration w cfg al ^^ 0) s"
      by (subst bfs_loop.simps) simp
    then show ?thesis by blast
  qed
qed

lemma set_add_distinct: "distinct xs \<Longrightarrow> distinct (set_add x xs)"
  by (simp add: set_add_def)

lemma bfs_iteration_fetch_once:
  assumes "requests s = visited_urls s \<and> distinct (visited_urls s)"
  shows "requests (bfs_iteration w cfg al s) = visited_urls (bfs_iteration w cfg al s)
       \<and> distinct (visited_urls (bfs_iteration w cfg al s))"
  using assms
  by (auto simp: bfs_iteration_def set_add_def Let_def split: list.splits page.splits)

lemma explored_append [simp]: "explored (xs @ ys) = explored xs @ explored ys"
  by (induction xs rule: explored.induct) simp_all

lemma last_depth_append [simp]:
  "last_depth d (xs @ ys) = last_depth (last_depth d xs) ys"
  by (induction d xs rule: last_depth.induct) simp_all

lemma discovery_depths_append [simp]:
  "discovery_depths d (xs @ ys) = discovery_depths d xs @ discovery_depths (last_depth d xs) ys"
  by (induction d xs rule: discovery_depths.induct) simp_all

lemma process_links_depth_ok:
  assumes "depth_ok m s" and "last_depth None (log s) = Some depth" and "depth \<le> m"
  shows "depth_ok m (process_links w cfg al cur depth links s)
       \<and> last_depth None (log (process_links w cfg al cur depth links s)) = Some depth"
  using assms
proof (induction w cfg al cur depth links s rule: process_links.induct)
  case (1 w cfg al cur depth s)
  then show ?case by simp
next
  case (2 w cfg al cur depth links s)
  then show ?case by (simp add: depth_ok_def)
next
  case (3 w cfg al cur depth href anchor_text links s)
  let ?u = "urljoin w cur href"
  have a: "depth_ok m (s\<lparr>pdfs_discovered := set_add ?u (pdfs_discovered s),
                          log := log s @ [Found_PDF ?u]\<rparr>)"
    using "3.prems" by (simp add: depth_ok_def)
  have b: "depth_ok m (s\<lparr>queue := queue s @ [(?u, depth + 1)]\<rparr>)"
    using "3.prems" by (simp add: depth_ok_def)
  show ?case
    using 3 a b by (simp add: Let_def)
qed

lemma bfs_iteration_depth_ok:
  assumes "depth_ok (max_depth cfg) s"
  shows "depth_ok (max_depth cfg) (bfs_iteration w cfg al s)"
proof (cases "queue s")
  case Nil
  with assms show ?thesis by (simp add: bfs_iteration_def)
next
  case (Cons t rest)
  obtain cur depth where t: "t = (cur, depth)" by (cases t)
  show ?thesis
  proof (cases "cur \<in> set (visited_urls s) \<or> depth > max_depth cfg")
    case True
    with assms Cons t show ?thesis
      by (auto simp: bfs_iteration_def depth_ok_def)
  next
    case False
    define s2 where "s2 = s\<lparr>queue := rest,
        visited_urls := set_add cur (visited_urls s),
        log := log s @ [Exploring cur depth],
        clock := clock s + latency w (requests s) cur,
        requests := requests s @ [cur]\<rparr>"
    have ok2: "depth_ok (max_depth cfg) s2"
      using assms False by (simp add: s2_def depth_ok_def)
    have ld: "last_depth None (log s2) = Some depth"
      by (simp add: s2_def)
    have it: "bfs_iteration w cfg al s =
        (case get_page w (requests s) cur of
           Unreachable \<Rightarrow> s2\<lparr>log := log s2 @ [Error_processing cur]\<rparr>
         | Loaded page_text links \<Rightarrow> process_links w cfg al cur depth links s2)"
      using Cons t False by (simp add: bfs_iteration_def s2_def Let_def split: page.splits)
    show ?thesis
    proof (cases "get_page w (requests s) cur")
      case Unreachable
      with it ok2 show ?thesis by (simp add: depth_ok_def)
    next
      case (Loaded page_text links)
      with it process_links_depth_ok [OF ok2 ld, of w cfg al cur links] False
      show ?thesis by simp
    qed
  qed
qed

lemma link_task_Cons:
  "link_task w cfg al cur d links t \<Longrightarrow> link_task w cfg al cur d (x # links) t"
  by (auto simp: link_task_def)

lemma process_links_queue:
  "\<exists>new. queue (process_links w cfg al cur d links s) = queue s @ new
       \<and> list_all (link_task w cfg al cur d links) new"
proof (induction w cfg al cur d links s rule: process_links.induct)
  case (1 w cfg al cur d s)
  show ?case by simp
next
  case (2 w cfg al cur d links s)
  show ?case by simp
next
  case (3 w cfg al cur d href anchor_text links s)
  let ?u = "urljoin w cur href"
  let ?links = "Anchor href anchor_text # links"
  have weaken: "list_all (link_task w cfg al cur d links) new
      \<Longrightarrow> list_all (link_task w cfg al cur d ?links) new" for new
    by (auto simp: list_all_iff intro: link_task_Cons)
  consider (off) "\<not> domain_allowed w al ?u"
    | (pdf) "domain_allowed w al ?u" "is_pdf_url ?u"
    | (enq) "domain_allowed w al ?u" "\<not> is_pdf_url ?u"
        "is_relevant_link anchor_text href \<and> d < max_depth cfg \<and> ?u \<notin> set (visited_urls s)"
    | (drop) "domain_allowed w al ?u" "\<not> is_pdf_url ?u"
        "\<not> (is_relevant_link anchor_text href \<and> d < max_depth cfg \<and> ?u \<notin> set (visited_urls s))"
    by blast
  then show ?case
  proof cases
    case off
    with "3.IH"(1) obtain new where
      "queue (process_links w cfg al cur d links s) = queue s @ new"
      "list_all (link_task w cfg al cur d links) new" by auto
    with off weaken show ?thesis by (auto simp: Let_def)
  next
    case pdf
    with "3.IH"(2) obtain new where
      "queue (process_links w cfg al cur d links
          (s\<lparr>pdfs_discovered := set_add ?u (pdfs_discovered s),
             log := log s @ [Found_PDF ?u]\<rparr>)) = queue s @ new"
      "list_all (link_task w cfg al cur d links) new" by auto
    with pdf weaken show ?thesis by (auto simp: Let_def)
  next
    case enq
    with "3.IH"(3) obtain new where new:
      "queue (process_links w cfg al cur d links (s\<lparr>queue := queue s @ [(?u, d + 1)]\<rparr>))
         = (queue s @ [(?u, d + 1)]) @ new"
      "list_all (link_task w cfg al cur d links) new" by auto
    have "link_task w cfg al cur d ?links (?u, d + 1)"
      using enq by (auto simp: link_task_def)
    with new(2) weaken have "list_all (link_task w cfg al cur d ?links) ((?u, d + 1) # new)"
      by simp
    moreover have "queue (process_links w cfg al cur d ?links s) = queue s @ ((?u, d + 1) # new)"
      using enq new(1) by (simp add: Let_def)
    ultimately show ?thesis by blast
  next
    case drop
    with "3.IH"(4) obtain new where
      "queue (process_links w cfg al cur d links s) = queue s @ new"
      "list_all (link_task w cfg al cur d links) new" by auto
    with drop weaken show ?thesis by (auto simp: Let_def)
  qed
qed

lemma process_links_seeds_or_allowed:
  assumes "seeds_or_allowed w seeds al s"
  shows "seeds_or_allowed w seeds al (process_links w cfg al cur d links s)"
proof -
  obtain new where new: "queue (process_links w cfg al cur d links s) = queue s @ new"
      "list_all (link_task w cfg al cur d links) new"
    using process_links_queue by blast
  have "list_all (\<lambda>task. fst task \<in> set seeds \<or> domain_allowed w al (fst task)) new"
    using new(2) by (auto simp: list_all_iff link_task_def)
  with assms new(1) show ?thesis
    by (simp add: seeds_or_allowed_def)
qed

lemma bfs_iteration_seeds_or_allowed:
  assumes "seeds_or_allowed w seeds al s"
  shows "seeds_or_allowed w seeds al (bfs_iteration w cfg al s)"
proof (cases "queue s")
  case Nil
  with assms show ?thesis by (simp add: bfs_iteration_def)
next
  case (Cons t rest)
  obtain cur depth where t: "t = (cur, depth)" by (cases t)
  from assms Cons t have cur: "cur \<in> set seeds \<or> domain_allowed w al cur"
    by (simp add: seeds_or_allowed_def)
  show ?thesis
  proof (cases "cur \<in> set (visited_urls s) \<or> depth > max_depth cfg")
    case True
    with assms Cons t show ?thesis
      by (auto simp: bfs_iteration_def seeds_or_allowed_def)
  next
    case False
    define s2 where "s2 = s\<lparr>queue := rest,
        visited_urls := set_add cur (visited_urls s),
        log := log s @ [Exploring cur depth],
        clock := clock s + latency w (requests s) cur,
        requests := requests s @ [cur]\<rparr>"
    have ok2: "seeds_or_allowed w seeds al s2"
      using assms Cons cur by (simp add: s2_def seeds_or_allowed_def)
    have it: "bfs_iteration w cfg al s =
        (case get_page w (requests s) cur of
           Unreachable \<Rightarrow> s2\<lparr>log := log s2 @ [Error_processing cur]\<rparr>
         | Loaded page_text links \<Rightarrow> process_links w cfg al cur depth links s2)"
      using Cons t False by (simp add: bfs_iteration_def s2_def Let_def split: page.splits)
    show ?thesis
    proof (cases "get_page w (requests s) cur")
      case Unreachable
      with it ok2 show ?thesis by (simp add: seeds_or_allowed_def)
    next
      case (Loaded page_text links)
      with it process_links_seeds_or_allowed [OF ok2, of cfg cur depth links]
      show ?thesis by simp
    qed
  qed
qed

lemma bfs_final_seeds_or_allowed:
  "seeds_or_allowed w starting_urls al (bfs_final w cfg starting_urls al now)"
proof -
  have "seeds_or_allowed w starting_urls al (bfs_start starting_urls now)"
    by (simp add: seeds_or_allowed_def bfs_start_def list_all_iff)
  then show ?thesis
    unfolding bfs_final_def
    by (rule bfs_loop_invariant) (rule bfs_iteration_seeds_or_allowed)
qed

section \<open>The classifiers\<close>

lemma sublist_map_iff:
  "sublist x (map f u) \<longleftrightarrow> (\<exists>v. sublist v u \<and> map f v = x)"
proof
  assume "sublist x (map f u)"
  then obtain ps ss where "map f u = ps @ x @ ss" by (auto simp: sublist_def)
  then obtain us vs where u: "u = us @ vs" and "ps = map f us" and vs: "x @ ss = map f vs"
    by (auto simp: map_eq_append_conv)
  from vs obtain v ws where "vs = v @ ws" and v: "x = map f v"
    by (auto simp: append_eq_map_conv)
  with u have "u = us @ v @ ws" by simp
  then have "sublist v u" unfolding sublist_def by blast
  with v show "\<exists>v. sublist v u \<and> map f v = x" by blast
next
  assume "\<exists>v. sublist v u \<and> map f v = x"
  then obtain v ps ss where "u = ps @ v @ ss" "map f v = x" by (auto simp: sublist_def)
  then have "map f u = map f ps @ x @ map f ss" by simp
  then show "sublist x (map f u)" unfolding sublist_def by blast
qed

lemma is_pdf_url_iff: "is_pdf_url url \<longleftrightarrow> (\<exists>v. sublist v url \<and> lower v = ''.pdf'')"
proof -
  have "suffix ''.pdf'' (lower url) \<Longrightarrow> sublist ''.pdf'' (lower url)"
    by (rule suffix_imp_sublist)
  then have "is_pdf_url url \<longleftrightarrow> sublist ''.pdf'' (map lower_char url)"
    by (auto simp: is_pdf_url_def lower_def)
  then show ?thesis by (simp only: sublist_map_iff lower_def)
qed

lemma set_fold_set_add:
  "set (fold (\<lambda>x acc. if P x then set_add (f x) acc else acc) xs acc0)
     = set acc0 \<union> f ` {x \<in> set xs. P x}"
  by (induction xs arbitrary: acc0) (auto simp: set_add_def)

lemma set_detect_regional_indicators:
  "set (detect_regional_indicators url text) =
     {tag. tag = ''regional_url_pattern''
           \<and> (\<exists>pattern \<in> set regional_url_indicators. re_search pattern (lower url))}
     \<union> (\<lambda>state_code. ''state_'' @ state_code) `
         {state_code \<in> set (map fst us_states).
            sublist (''/'' @ lower state_code @ ''/'') (lower url)
            \<or> sublist (state_code @ ''_'') (lower url)}
     \<union> (\<lambda>keyword. ''keyword_'' @ str_replace keyword '' '' ''_'') `
         {keyword \<in> set regional_keywords. sublist keyword (lower text)}
     \<union> (\<lambda>p. ''state_'' @ fst p) ` {p \<in> set us_states. sublist (lower (snd p)) (lower text)}"
proof -
  have pair: "(\<lambda>(state_code, state_name) ind.
              if sublist (lower state_name) (lower text)
              then set_add (''state_'' @ state_code) ind else ind)
        = (\<lambda>p ind. if sublist (lower (snd p)) (lower text)
              then set_add (''state_'' @ fst p) ind else ind)"
    by (simp add: fun_eq_iff split_def)
  show ?thesis
    unfolding detect_regional_indicators_def Let_def pair
    unfolding set_fold_set_add by auto
qed

lemma state_tag_iff:
  "(''state_'' @ code) \<in> set (detect_regional_indicators url text) \<longleftrightarrow>
     (code \<in> set (map fst us_states)
        \<and> (sublist (''/'' @ lower code @ ''/'') (lower url) \<or> sublist (code @ ''_'') (lower url)))
     \<or> (\<exists>name. (code, name) \<in> set us_states \<and> sublist (lower name) (lower text))"
  unfolding set_detect_regional_indicators by (auto simp: image_iff)

section \<open>The loop of \<open>discover_regional_content_bfs\<close>\<close>

lemma emit_emit [simp]: "emit a (emit b r) = emit (a @ b) r"
  by (induction b r rule: emit.induct) simp_all

lemma emit_Nil [simp]: "emit [] r = r"
  by (induction "[] :: string" r rule: emit.induct) simp_all

lemma simple_format_plain:
  "c \<noteq> CHR ''{'' \<Longrightarrow> c \<noteq> CHR ''}'' \<Longrightarrow>
     simple_format (c # cs) v = emit [c] (simple_format cs v)"
  by simp

lemma simple_format_literal:
  "brace_free pre \<Longrightarrow> simple_format (pre @ t) v = emit pre (simple_format t v)"
proof (induction pre)
  case Nil
  show ?case by simp
next
  case (Cons c pre)
  then have "c \<noteq> CHR ''{''" "c \<noteq> CHR ''}''" "brace_free pre"
    by (auto simp: brace_free_def)
  with Cons.IH show ?case
    by (simp add: simple_format_plain del: simple_format.simps)
qed

lemma simple_format_brace_free:
  "brace_free post \<Longrightarrow> simple_format post v = Some (Inr post)"
  using simple_format_literal [of post "[]" v] by simp

lemma simple_format_field:
  "simple_format (''{state}'' @ t) v = emit v (simple_format t v)"
  by simp

lemma str_format_state_field:
  assumes "brace_free pre" and "brace_free post"
  shows "str_format w (pre @ ''{state}'' @ post) v = Inr (pre @ v @ post)"
proof -
  have "simple_format (pre @ ''{state}'' @ post) v = Some (Inr (pre @ v @ post))"
    using assms
    by (simp only: simple_format_literal simple_format_field simple_format_brace_free
          emit_emit emit.simps append_assoc)
  then show ?thesis by (simp add: str_format_def)
qed

lemma fill_patterns_Inr:
  assumes "list_all (\<lambda>p. \<exists>pre post. p = pre @ ''{state}'' @ post \<and> brace_free pre \<and> brace_free post) ps"
  shows "\<exists>urls. fill_patterns w ps code name = Inr urls \<and> length urls = 2 * length ps"
  using assms
proof (induction ps)
  case Nil
  show ?case by simp
next
  case (Cons p ps)
  then obtain urls where urls: "fill_patterns w ps code name = Inr urls" "length urls = 2 * length ps"
    by auto
  from Cons.prems obtain pre post where p: "p = pre @ ''{state}'' @ post" "brace_free pre" "brace_free post"
    by auto
  have "str_format w p code = Inr (pre @ code @ post)" "str_format w p name = Inr (pre @ name @ post)"
    unfolding p(1) by (rule str_format_state_field [OF p(2,3)])+
  with urls show ?case by simp
qed

lemma url_patterns_fields:
  assumes "brace_free base_domain"
  shows "list_all (\<lambda>p. \<exists>pre post. p = pre @ ''{state}'' @ post \<and> brace_free pre \<and> brace_free post)
           (url_patterns base_domain)"
proof -
  have field: "\<exists>pre post. a @ base_domain @ b @ ''{state}'' @ c = pre @ ''{state}'' @ post
        \<and> brace_free pre \<and> brace_free post"
    if "brace_free a" "brace_free b" "brace_free c" for a b c
  proof (intro exI conjI)
    show "a @ base_domain @ b @ ''{state}'' @ c = (a @ base_domain @ b) @ ''{state}'' @ c"
      by simp
    show "brace_free (a @ base_domain @ b)"
      using that assms by (simp add: brace_free_def)
    show "brace_free c" by (rule that(3))
  qed
  have lit: "brace_free ''https://www.''" "brace_free ''https://provider.''"
    "brace_free ''https://providers.''" "brace_free ''/providers/''" "brace_free ''/''"
    "brace_free ''/state/''" "brace_free ''/regional/''" "brace_free ''/medicaid/''"
    "brace_free ''/medicare/''"
    by (simp_all add: brace_free_def)
  show ?thesis
    unfolding url_patterns_def
    using field [of "''https://www.''" "''/providers/''" "''/''"]
      field [of "''https://provider.''" "''/''" "''/''"]
      field [of "''https://providers.''" "''/''" "''/''"]
      field [of "''https://www.''" "''/state/''" "''/''"]
      field [of "''https://www.''" "''/regional/''" "''/''"]
      field [of "''https://www.''" "''/''" "''/providers/''"]
      field [of "''https://www.''" "''/medicaid/''" "''/''"]
      field [of "''https://www.''" "''/medicare/''" "''/''"]
      lit
    by simp
qed

lemma generate_for_states_Inr:
  assumes "list_all (\<lambda>p. \<exists>pre post. p = pre @ ''{state}'' @ post \<and> brace_free pre \<and> brace_free post) ps"
    and "list_all (\<lambda>c. c \<in> set (map fst us_states)) codes"
  shows "\<exists>urls. generate_for_states w ps codes = Inr urls \<and> length urls = 2 * length ps * length codes"
  using assms(2)
proof (induction codes)
  case Nil
  show ?case by simp
next
  case (Cons c codes)
  then obtain urls where urls: "generate_for_states w ps codes = Inr urls"
      "length urls = 2 * length ps * length codes" by auto
  from Cons.prems have "c \<in> fst ` set us_states" by simp
  then obtain name where name: "map_of us_states c = Some name"
    by (metis domIff dom_map_of_conv_image_fst not_Some_eq)
  obtain these where these:
    "fill_patterns w ps (lower c) (str_replace (lower name) '' '' ''-'') = Inr these"
    "length these = 2 * length ps"
    using fill_patterns_Inr [OF assms(1)] by blast
  with urls name show ?case by simp
qed

lemma priority_states_known: "list_all (\<lambda>c. c \<in> set (map fst us_states)) priority_states"
  by code_simp

lemma generate_state_specific_urls_Inr:
  assumes "brace_free base_domain"
  shows "\<exists>state_urls. generate_state_specific_urls w base_url base_domain = Inr state_urls
      \<and> length state_urls = 160"
  using generate_for_states_Inr [OF url_patterns_fields [OF assms] priority_states_known, of w]
  by (simp add: generate_state_specific_urls_def url_patterns_def priority_states_def)

lemma regional_loop_invariant:
  assumes "I s"
    and "\<And>s. I s \<Longrightarrow> regional_running t0 tmax s \<Longrightarrow> I (fst (regional_iteration w m al s))"
  shows "I (fst (regional_loop w m al t0 tmax s))"
  using assms
proof (induction w m al t0 tmax s rule: regional_loop.induct)
  case (1 w m al t0 tmax s)
  show ?case
  proof (cases "regional_running t0 tmax s")
    case False
    with "1.prems" show ?thesis by (subst regional_loop.simps) simp
  next
    case True
    have step: "I (fst (regional_iteration w m al s))"
      using "1.prems" True by blast
    show ?thesis
    proof (cases "snd (regional_iteration w m al s)")
      case None
      have "I (fst (regional_loop w m al t0 tmax (fst (regional_iteration w m al s))))"
        by (rule "1.IH" [OF True None step "1.prems"(2)])
      then show ?thesis
        using True None by (subst regional_loop.simps) simp
    next
      case (Some e)
      with True step show ?thesis by (subst regional_loop.simps) simp
    qed
  qed
qed

text \<open>
  Every iteration of the regional loop starts while the time elapsed since the start is
  below the budget.
\<close>

lemma regional_loop_iterations:
  "\<exists>n. fst (regional_loop w m al t0 tmax s) = (regional_step w m al ^^ n) s
     \<and> (\<forall>k<n. clock ((regional_step w m al ^^ k) s) - t0 < tmax)"
proof (induction w m al t0 tmax s rule: regional_loop.induct)
  case (1 w m al t0 tmax s)
  show ?case
  proof (cases "regional_running t0 tmax s")
    case False
    then have "fst (regional_loop w m al t0 tmax s) = (regional_step w m al ^^ 0) s"
      by (subst regional_loop.simps) simp
    then show ?thesis by blast
  next
    case True
    then have now: "clock s - t0 < tmax" by (simp add: regional_running_def)
    show ?thesis
    proof (cases "snd (regional_iteration w m al s)")
      case (Some e)
      with True have "fst (regional_loop w m al t0 tmax s) = (regional_step w m al ^^ 1) s"
        by (subst regional_loop.simps) (simp add: regional_step_def)
      moreover have "\<forall>k<1. clock ((regional_step w m al ^^ k) s) - t0 < tmax"
        using now by simp
      ultimately show ?thesis by blast
    next
      case None
      from "1.IH" [OF True None] obtain n where
        n: "fst (regional_loop w m al t0 tmax (regional_step w m al s))
              = (regional_step w m al ^^ n) (regional_step w m al s)"
        "\<forall>k<n. clock ((regional_step w m al ^^ k) (regional_step w m al s)) - t0 < tmax"
        unfolding regional_step_def [symmetric] by blast
      have "fst (regional_loop w m al t0 tmax s)
          = fst (regional_loop w m al t0 tmax (regional_step w m al s))"
        using True None by (subst regional_loop.simps) (simp add: regional_step_def)
      with n(1) have "fst (regional_loop w m al t0 tmax s) = (regional_step w m al ^^ Suc n) s"
        by (simp add: funpow_swap1)
      moreover have "\<forall>k<Suc n. clock ((regional_step w m al ^^ k) s) - t0 < tmax"
      proof (intro allI impI)
        fix k assume "k < Suc n"
        show "clock ((regional_step w m al ^^ k) s) - t0 < tmax"
        proof (cases k)
          case 0
          with now show ?thesis by simp
        next
          case (Suc j)
          with \<open>k < Suc n\<close> n(2) show ?thesis by (simp add: funpow_swap1)
        qed
      qed
      ultimately show ?thesis by blast
    qed
  qed
qed

lemma initial_frontier_raises:
  "urlparse_raises w first_url \<Longrightarrow> initial_frontier w (first_url # others) = Inl ValueError"
  by (simp add: initial_frontier_def)

lemma regional_iteration_fetched_ok:
  assumes "fetched_ok w al s"
  shows "fetched_ok w al (fst (regional_iteration w m al s))"
  using assms
  by (auto simp: fetched_ok_def regional_iteration_def set_add_def Let_def
           split: list.splits page.splits)

lemma regional_final_fetched_ok:
  "fetched_ok w al (fst (regional_final w m visited starting_urls al t now))"
proof (cases "initial_frontier w starting_urls")
  case (Inl e)
  then show ?thesis by (simp add: regional_final_def Let_def fetched_ok_def)
next
  case (Inr q)
  have "fetched_ok w al \<lparr>visited_urls = visited, log = [], requests = [], clock = now,
             frontier = q, urls_processed = 0, all_pdfs = [], regional_pdfs = [],
             relevant_pages = [], state_coverage = []\<rparr>"
    by (simp add: fetched_ok_def)
  then have "fetched_ok w al (fst (regional_loop w m al now (t * 60)
         \<lparr>visited_urls = visited, log = [], requests = [], clock = now,
             frontier = q, urls_processed = 0, all_pdfs = [], regional_pdfs = [],
             relevant_pages = [], state_coverage = []\<rparr>))"
    by (rule regional_loop_invariant) (rule regional_iteration_fetched_ok)
  with Inr show ?thesis by (simp add: regional_final_def Let_def)
qed

text \<open>
  The regional crawl of the page about Ohio with a budget of one minute: the load of the
  seed takes ninety seconds, so the loop stops after one iteration.
\<close>

lemma ohio_run:
  "regional_final ohio_web 2 [] [''https://x.test/''] [''x.test''] 1 0 =
     (\<lparr>visited_urls = [''https://x.test/''],
           log = [Exploring ''https://x.test/'' 0, Found_PDF ''https://x.test/OH_Manual.pdf''],
           requests = [''https://x.test/''], clock = 90,
           frontier =
             [(''https://www.x.test/providers/ca/'', 1, 5),
              (''https://www.x.test/providers/california/'', 1, 5),
              (''https://provider.x.test/ca/'', 1, 5),
              (''https://provider.x.test/california/'', 1, 5),
              (''https://providers.x.test/ca/'', 1, 5),
              (''https://providers.x.test/california/'', 1, 5),
              (''https://www.x.test/state/ca/'', 1, 5),
              (''https://www.x.test/state/california/'', 1, 5),
              (''https://www.x.test/regional/ca/'', 1, 5),
              (''https://www.x.test/regional/california/'', 1, 5),
              (''https://www.x.test/ca/providers/'', 1, 5),
              (''https://www.x.test/california/providers/'', 1, 5),
              (''https://www.x.test/medicaid/ca/'', 1, 5),
              (''https://www.x.test/medicaid/california/'', 1, 5),
              (''https://www.x.test/medicare/ca/'', 1, 5),
              (''https://www.x.test/medicare/california/'', 1, 5),
              (''https://www.x.test/providers/tx/'', 1, 5),
              (''https://www.x.test/providers/texas/'', 1, 5),
              (''https://provider.x.test/tx/'', 1, 5),
              (''https://provider.x.test/texas/'', 1, 5),
              (''https://x.test/oh/'', 1, 8)],
           urls_processed = 1, all_pdfs = [''https://x.test/OH_Manual.pdf''],
           regional_pdfs = [(''OH'', [''https://x.test/OH_Manual.pdf''])],
           relevant_pages = [], state_coverage = [''OH'']\<rparr>, None)"
  by code_simp

text \<open>
  Calls that end with an exception: a brace in the network location of the first seed
  makes \<open>format\<close> raise \<open>KeyError\<close>; a first seed with an opening bracket only makes
  \<open>urlparse\<close> raise before the loop; as the second seed it makes \<open>urlparse\<close> raise in
  the second iteration, after the first seed has been requested.
\<close>

lemma regional_crawl_raises:
  "initial_frontier ohio_web [''https://x{y}.test/''] = Inl KeyError
   \<and> discover_regional_content_bfs ohio_web 2 [] [''https://x{y}.test/''] [''x.test''] ''X'' 1 0
       = None
   \<and> snd (regional_final ohio_web 2 [] [''https://[x.test/''] [''x.test''] 1 0) = Some ValueError
   \<and> snd (regional_final ohio_web 2 [] [''https://x.test/'', ''https://[x.test/''] [''x.test''] 5 0)
       = Some ValueError
   \<and> requests (fst (regional_final ohio_web 2 [] [''https://x.test/'', ''https://[x.test/'']
         [''x.test''] 5 0)) = [''https://x.test/'']
   \<and> discover_regional_content_bfs ohio_web 2 [] [''https://x.test/'', ''https://[x.test/'']
         [''x.test''] ''X'' 5 0 = None"
  by code_simp

section \<open>Frontier invariants\<close>

text \<open>
  C1. No URL is fetched twice in a crawl. For \<open>discover_pdfs_bfs\<close> the returned
  \<open>urls_visited\<close> has every URL once, and the requests the driver made are without
  repetition and are the URLs of \<open>urls_visited\<close>, whatever the seeds and the pages are
  (a seed given twice, a page linked from many pages). For
  \<open>discover_regional_content_bfs\<close>, whether the call returns or ends with an exception,
  the requests made are without repetition and all among the visited URLs.
\<close>

theorem fetch_at_most_once:
  "distinct (urls_visited (discover_pdfs_bfs w cfg starting_urls allowed_domains now))
   \<and> distinct (requests (bfs_final w cfg starting_urls allowed_domains now))
   \<and> set (requests (bfs_final w cfg starting_urls allowed_domains now))
       = set (urls_visited (discover_pdfs_bfs w cfg starting_urls allowed_domains now))
   \<and> distinct (requests (fst (regional_final w m visited starting_urls allowed_domains t now)))
   \<and> set (requests (fst (regional_final w m visited starting_urls allowed_domains t now)))
       \<subseteq> set (visited_urls (fst (regional_final w m visited starting_urls allowed_domains t now)))"
proof -
  let ?I = "\<lambda>s. requests s = visited_urls s \<and> distinct (visited_urls s)"
  have "?I (bfs_start starting_urls now)"
    by (simp add: bfs_start_def)
  then have "?I (bfs_loop w cfg allowed_domains (bfs_start starting_urls now))"
    by (rule bfs_loop_invariant) (rule bfs_iteration_fetch_once)
  then have bfs: "distinct (urls_visited (discover_pdfs_bfs w cfg starting_urls allowed_domains now))
   \<and> distinct (requests (bfs_final w cfg starting_urls allowed_domains now))
   \<and> set (requests (bfs_final w cfg starting_urls allowed_domains now))
       = set (urls_visited (discover_pdfs_bfs w cfg starting_urls allowed_domains now))"
    by (simp add: discover_pdfs_bfs_def bfs_final_def Let_def)
  have "fetched_ok w allowed_domains
      (fst (regional_final w m visited starting_urls allowed_domains t now))"
    by (rule regional_final_fetched_ok)
  then have "distinct (requests (fst (regional_final w m visited starting_urls allowed_domains t now)))
   \<and> set (requests (fst (regional_final w m visited starting_urls allowed_domains t now)))
       \<subseteq> set (visited_urls (fst (regional_final w m visited starting_urls allowed_domains t now)))"
    by (simp add: fetched_ok_def)
  with bfs show ?thesis by blast
qed

text \<open>The seed is given twice and the two pages link to each other.\<close>

theorem fetch_at_most_once_witness:
  "set (urls_visited (discover_pdfs_bfs cyclic_web small_cfg
      [''https://x.test/a'', ''https://x.test/a''] [''x.test''] 0))
     = {''https://x.test/a'', ''https://x.test/b''}
   \<and> distinct (requests (bfs_final cyclic_web small_cfg
      [''https://x.test/a'', ''https://x.test/a''] [''x.test''] 0))
   \<and> requests (fst (regional_final ohio_web 2 [] [''https://x.test/''] [''x.test''] 1 0))
       = [''https://x.test/'']"
proof -
  have "urls_visited (discover_pdfs_bfs cyclic_web small_cfg
      [''https://x.test/a'', ''https://x.test/a''] [''x.test''] 0)
     = [''https://x.test/a'', ''https://x.test/b'']"
    by code_simp
  with fetch_at_most_once [of cyclic_web small_cfg
      "[''https://x.test/a'', ''https://x.test/a'']" "[''x.test'']" 0]
  show ?thesis by (simp add: ohio_run)
qed

text \<open>
  C2. The loop of \<open>discover_pdfs_bfs\<close> ends: from every state, for every web (cyclic
  ones included) and every budget, there is a number \<open>n\<close> of iterations after which
  the loop condition is false; the loop runs exactly these \<open>n\<close> iterations and returns
  the state reached.
\<close>

theorem crawl_terminates:
  "\<exists>n. bfs_loop w cfg allowed_domains s = (bfs_iteration w cfg allowed_domains ^^ n) s
      \<and> (\<forall>k<n. bfs_running cfg ((bfs_iteration w cfg allowed_domains ^^ k) s))
      \<and> \<not> bfs_running cfg ((bfs_iteration w cfg allowed_domains ^^ n) s)"
proof -
  obtain n where n: "bfs_loop w cfg allowed_domains s = (bfs_iteration w cfg allowed_domains ^^ n) s"
    "\<forall>k<n. bfs_running cfg ((bfs_iteration w cfg allowed_domains ^^ k) s)"
    using bfs_loop_iterations by blast
  moreover have "\<not> bfs_running cfg (bfs_loop w cfg allowed_domains s)"
    by (rule bfs_loop_stops)
  ultimately show ?thesis by metis
qed

text \<open>On the two pages that link to each other the loop stops with both visited.\<close>

theorem crawl_terminates_witness:
  "(\<exists>n. bfs_loop cyclic_web small_cfg [''x.test''] (bfs_start [''https://x.test/a''] 0)
         = (bfs_iteration cyclic_web small_cfg [''x.test''] ^^ n) (bfs_start [''https://x.test/a''] 0)
      \<and> (\<forall>k<n. bfs_running small_cfg
            ((bfs_iteration cyclic_web small_cfg [''x.test''] ^^ k) (bfs_start [''https://x.test/a''] 0)))
      \<and> \<not> bfs_running small_cfg
            ((bfs_iteration cyclic_web small_cfg [''x.test''] ^^ n) (bfs_start [''https://x.test/a''] 0)))
   \<and> bfs_running small_cfg (bfs_start [''https://x.test/a''] 0)
   \<and> visited_urls (bfs_loop cyclic_web small_cfg [''x.test''] (bfs_start [''https://x.test/a''] 0))
        = [''https://x.test/a'', ''https://x.test/b'']"
proof -
  have "bfs_running small_cfg (bfs_start [''https://x.test/a''] 0)"
    by code_simp
  moreover have "visited_urls (bfs_loop cyclic_web small_cfg [''x.test''] (bfs_start [''https://x.test/a''] 0))
        = [''https://x.test/a'', ''https://x.test/b'']"
    by code_simp
  ultimately show ?thesis
    using crawl_terminates [of cyclic_web small_cfg "[''x.test'']" "bfs_start [''https://x.test/a''] 0"]
    by blast
qed

text \<open>
  C3. Every URL the crawl explores (and so every URL it requests) is explored at a depth
  of at most \<open>max_depth\<close>; every PDF is found on a page explored at such a depth; and
  a task that the link loop of a page at depth \<open>d\<close> adds to the queue has depth
  \<open>d + 1\<close>, which is at most \<open>max_depth\<close>.
\<close>

theorem depth_bound:
  "(\<forall>(url, depth) \<in> set (explored (log (bfs_final w cfg starting_urls allowed_domains now))).
       depth \<le> max_depth cfg)
   \<and> map fst (explored (log (bfs_final w cfg starting_urls allowed_domains now)))
       = requests (bfs_final w cfg starting_urls allowed_domains now)
   \<and> (\<forall>(url, found_at) \<in>
         set (discovery_depths None (log (bfs_final w cfg starting_urls allowed_domains now))).
       \<exists>depth. found_at = Some depth \<and> depth \<le> max_depth cfg)
   \<and> (\<forall>task \<in> set (queue (process_links w cfg allowed_domains current_url d links s)).
       task \<in> set (queue s) \<or> (snd task = d + 1 \<and> snd task \<le> max_depth cfg))"
proof -
  have "depth_ok (max_depth cfg) (bfs_start starting_urls now)"
    by (simp add: depth_ok_def bfs_start_def)
  then have "depth_ok (max_depth cfg) (bfs_loop w cfg allowed_domains (bfs_start starting_urls now))"
    by (rule bfs_loop_invariant) (rule bfs_iteration_depth_ok)
  then have ok: "depth_ok (max_depth cfg) (bfs_final w cfg starting_urls allowed_domains now)"
    by (simp add: bfs_final_def)
  have enq: "\<forall>task \<in> set (queue (process_links w cfg allowed_domains current_url d links s)).
       task \<in> set (queue s) \<or> (snd task = d + 1 \<and> snd task \<le> max_depth cfg)"
  proof -
    obtain new where new:
      "queue (process_links w cfg allowed_domains current_url d links s) = queue s @ new"
      "list_all (link_task w cfg allowed_domains current_url d links) new"
      using process_links_queue by blast
    have "snd task = d + 1 \<and> snd task \<le> max_depth cfg" if "task \<in> set new" for task
    proof -
      from new(2) that have "snd task = d + 1" "d < max_depth cfg"
        by (simp_all add: list_all_iff link_task_def)
      then show ?thesis by simp
    qed
    with new(1) show ?thesis by auto
  qed
  from ok have "\<forall>(url, found_at) \<in>
         set (discovery_depths None (log (bfs_final w cfg starting_urls allowed_domains now))).
       \<exists>depth. found_at = Some depth \<and> depth \<le> max_depth cfg"
    by (auto simp: depth_ok_def list_all_iff split: option.splits)
  with ok enq show ?thesis
    by (auto simp: depth_ok_def list_all_iff)
qed

theorem depth_bound_witness:
  "(''https://x.test/b'', 1)
      \<in> set (explored (log (bfs_final cyclic_web small_cfg [''https://x.test/a''] [''x.test''] 0)))
   \<and> (1::int) \<le> max_depth small_cfg
   \<and> (''https://x.test/b.pdf'', Some 1)
      \<in> set (discovery_depths None
           (log (bfs_final cyclic_web small_cfg [''https://x.test/a''] [''x.test''] 0)))
   \<and> (''https://x.test/b'', 1)
      \<in> set (queue (process_links cyclic_web small_cfg [''x.test''] ''https://x.test/a'' 0
           [Anchor ''https://x.test/b'' ''Provider guide B''] (bfs_start [] 0)))"
proof -
  have e: "(''https://x.test/b'', 1)
      \<in> set (explored (log (bfs_final cyclic_web small_cfg [''https://x.test/a''] [''x.test''] 0)))"
    by code_simp
  have d: "(''https://x.test/b.pdf'', Some 1)
      \<in> set (discovery_depths None
           (log (bfs_final cyclic_web small_cfg [''https://x.test/a''] [''x.test''] 0)))"
    by code_simp
  have q: "(''https://x.test/b'', 1)
      \<in> set (queue (process_links cyclic_web small_cfg [''x.test''] ''https://x.test/a'' 0
           [Anchor ''https://x.test/b'' ''Provider guide B''] (bfs_start [] 0)))"
    by code_simp
  from depth_bound [of cyclic_web small_cfg "[''https://x.test/a'']" "[''x.test'']" 0] e
  have "(1::int) \<le> max_depth small_cfg" by fastforce
  with e d q show ?thesis by simp
qed

text \<open>
  C4, as the code has it. A URL passes the domain check when its network location
  contains one of the allowed domains as a substring. Every URL that
  \<open>discover_regional_content_bfs\<close> requests passes it, seeds and generated URLs
  included, whether the call returns or ends with an exception; every URL that
  \<open>discover_pdfs_bfs\<close> requests is one of the seeds or passes it.
\<close>

theorem fetched_urls_contain_allowed_domain:
  "(\<forall>url \<in> set (requests (fst (regional_final w m visited starting_urls allowed_domains t now))).
        domain_allowed w allowed_domains url)
   \<and> (\<forall>url \<in> set (requests (bfs_final w cfg starting_urls allowed_domains now)).
        url \<in> set starting_urls \<or> domain_allowed w allowed_domains url)"
proof -
  have "fetched_ok w allowed_domains
      (fst (regional_final w m visited starting_urls allowed_domains t now))"
    by (rule regional_final_fetched_ok)
  then have "\<forall>url \<in> set (requests (fst (regional_final w m visited starting_urls allowed_domains t now))).
        domain_allowed w allowed_domains url"
    by (simp add: fetched_ok_def list_all_iff)
  moreover have "\<forall>url \<in> set (requests (bfs_final w cfg starting_urls allowed_domains now)).
        url \<in> set starting_urls \<or> domain_allowed w allowed_domains url"
    using bfs_final_seeds_or_allowed [of w starting_urls allowed_domains cfg now]
    by (simp add: seeds_or_allowed_def list_all_iff)
  ultimately show ?thesis by blast
qed

theorem fetched_urls_contain_allowed_domain_witness:
  "requests (bfs_final stray_web small_cfg [''https://portal.example/''] [''x.test''] 0)
     = [''https://portal.example/'', ''https://notx.test/provider/'']
   \<and> domain_allowed stray_web [''x.test''] ''https://notx.test/provider/''
   \<and> requests (fst (regional_final ohio_web 2 [] [''https://x.test/''] [''x.test''] 1 0))
       = [''https://x.test/'']
   \<and> domain_allowed ohio_web [''x.test''] ''https://x.test/''"
proof -
  have r: "requests (bfs_final stray_web small_cfg [''https://portal.example/''] [''x.test''] 0)
     = [''https://portal.example/'', ''https://notx.test/provider/'']"
    by code_simp
  have o: "requests (fst (regional_final ohio_web 2 [] [''https://x.test/''] [''x.test''] 1 0))
       = [''https://x.test/'']"
    by (simp add: ohio_run)
  from fetched_urls_contain_allowed_domain [of ohio_web 2 "[]" "[''https://x.test/'']" "[''x.test'']" 1 0
      small_cfg]
  have a: "domain_allowed ohio_web [''x.test''] ''https://x.test/''"
    by (simp add: ohio_run)
  from fetched_urls_contain_allowed_domain [of stray_web 2 "[]" "[''https://portal.example/'']" "[''x.test'']" 1 0
      small_cfg] r
  have b: "domain_allowed stray_web [''x.test''] ''https://notx.test/provider/''"
    by simp
  from r o a b show ?thesis by simp
qed

text \<open>
  C4 as stated fails: with \<open>x.test\<close> as the only allowed domain,
  \<open>discover_pdfs_bfs\<close> requests a seed on the host \<open>portal.example\<close> and then a
  link on the host \<open>notx.test\<close>; neither host is a member of the allowed domains.
\<close>

theorem allowed_domain_counterexample:
  "requests (bfs_final stray_web small_cfg [''https://portal.example/''] [''x.test''] 0)
     = [''https://portal.example/'', ''https://notx.test/provider/'']
   \<and> netloc_of stray_web ''https://portal.example/'' = ''portal.example''
   \<and> netloc_of stray_web ''https://notx.test/provider/'' = ''notx.test''
   \<and> ''portal.example'' \<notin> set [''x.test'']
   \<and> ''notx.test'' \<notin> set [''x.test'']"
  by code_simp

text \<open>
  C5. \<open>test_single_payer\<close> is called with a time limit of one minute and two portal
  URLs; every page loads in 25 seconds. The loop of \<open>discover_pdfs_bfs\<close> never reads
  the clock: its fourth iteration starts after 75 seconds, and the crawl visits six
  URLs and reports two and a half minutes.
\<close>

theorem time_limit_not_enforced:
  "map_sum id payer_elapsed_time_minutes
     (test_single_payer slow_web small_cfg [''https://x.test/a/'', ''https://x.test/b/''] ''x.test'' 1 0)
     = Inr (5 / 2)
   \<and> map_sum id total_urls_visited
     (test_single_payer slow_web small_cfg [''https://x.test/a/'', ''https://x.test/b/''] ''x.test'' 1 0)
     = Inr 6
   \<and> map_sum id allowed_domains_used
     (test_single_payer slow_web small_cfg [''https://x.test/a/'', ''https://x.test/b/''] ''x.test'' 1 0)
     = Inr [''x.test'', ''www.x.test'', ''provider.x.test'', ''providers.x.test'',
            ''professional.x.test'', ''portal.x.test'', ''prov.x.test'']
   \<and> clock ((bfs_iteration slow_web small_cfg
          [''x.test'', ''www.x.test'', ''provider.x.test'', ''providers.x.test'',
           ''professional.x.test'', ''portal.x.test'', ''prov.x.test''] ^^ 3)
        (bfs_start [''https://x.test/a/'', ''https://x.test/b/''] 0)) = 75
   \<and> bfs_running small_cfg ((bfs_iteration slow_web small_cfg
          [''x.test'', ''www.x.test'', ''provider.x.test'', ''providers.x.test'',
           ''professional.x.test'', ''portal.x.test'', ''prov.x.test''] ^^ 3)
        (bfs_start [''https://x.test/a/'', ''https://x.test/b/''] 0))"
  by code_simp

section \<open>Classification and reporting\<close>

text \<open>
  C6, as the code has it. \<open>is_pdf_url\<close> holds exactly when \<open>.pdf\<close> occurs, in any
  mix of upper and lower case, somewhere in the whole URL string: in the scheme, the host
  and the fragment as well as in the path and the query.
\<close>

theorem is_pdf_url_whole_url:
  "is_pdf_url url \<longleftrightarrow> (\<exists>v. sublist v url \<and> lower v = ''.pdf'')"
  by (rule is_pdf_url_iff)

text \<open>
  C6 as stated fails: a URL whose host contains \<open>.pdf\<close> is classified as a document
  although neither its path nor its query contains it.
\<close>

theorem is_pdf_url_counterexample:
  "is_pdf_url ''https://files.pdf.x.test/index.html''
   \<and> \<not> spec_is_document ''https://files.pdf.x.test/index.html''"
  by code_simp

text \<open>
  C7, as the code has it. The link loop of a page adds a task to the queue only for an
  anchor that \<open>is_relevant_link\<close> accepts, that is, whose lowercased anchor text, a
  blank and the lowercased \<open>href\<close> contain one of the eighteen keywords of
  \<open>relevant_keywords\<close>; an anchor that it rejects and that is no PDF leaves the state
  as it is.
\<close>

theorem irrelevant_link_not_enqueued:
  "(\<forall>task \<in> set (queue (process_links w cfg allowed_domains current_url depth links s)).
       task \<in> set (queue s)
       \<or> (\<exists>href anchor_text. Anchor href anchor_text \<in> set links
            \<and> fst task = urljoin w current_url href
            \<and> is_relevant_link anchor_text href))
   \<and> (is_relevant_link anchor_text href \<or> is_pdf_url (urljoin w current_url href)
       \<or> process_links w cfg allowed_domains current_url depth (Anchor href anchor_text # links) s
           = process_links w cfg allowed_domains current_url depth links s)"
proof -
  obtain new where new:
    "queue (process_links w cfg allowed_domains current_url depth links s) = queue s @ new"
    "list_all (link_task w cfg allowed_domains current_url depth links) new"
    using process_links_queue by blast
  have "\<exists>href anchor_text. Anchor href anchor_text \<in> set links
            \<and> fst task = urljoin w current_url href
            \<and> is_relevant_link anchor_text href" if "task \<in> set new" for task
  proof -
    from new(2) that have "link_task w cfg allowed_domains current_url depth links task"
      by (simp add: list_all_iff)
    then show ?thesis unfolding link_task_def by blast
  qed
  with new(1) have "\<forall>task \<in> set (queue (process_links w cfg allowed_domains current_url depth links s)).
       task \<in> set (queue s)
       \<or> (\<exists>href anchor_text. Anchor href anchor_text \<in> set links
            \<and> fst task = urljoin w current_url href
            \<and> is_relevant_link anchor_text href)"
    by auto
  then show ?thesis by (simp add: Let_def)
qed

theorem irrelevant_link_not_enqueued_witness:
  "\<not> is_relevant_link ''click here'' ''https://x.test/other/''
   \<and> \<not> is_pdf_url ''https://x.test/other/''
   \<and> queue (bfs_iteration scenario_web scenario_cfg [''x.test''] (bfs_start [''https://x.test/''] 0))
       = [(''https://x.test/tools/'', 1)]
   \<and> is_relevant_link ''Tools'' ''https://x.test/tools/''
   \<and> process_links scenario_web scenario_cfg [''x.test''] ''https://x.test/'' 0
        [Anchor ''https://x.test/other/'' ''click here''] (bfs_start [] 0)
       = bfs_start [] 0"
proof -
  have a: "\<not> is_relevant_link ''click here'' ''https://x.test/other/''"
    and b: "\<not> is_pdf_url ''https://x.test/other/''"
    and c: "queue (bfs_iteration scenario_web scenario_cfg [''x.test''] (bfs_start [''https://x.test/''] 0))
       = [(''https://x.test/tools/'', 1)]"
    and d: "is_relevant_link ''Tools'' ''https://x.test/tools/''"
    by code_simp+
  have "urljoin scenario_web ''https://x.test/'' ''https://x.test/other/'' = ''https://x.test/other/''"
    by (simp add: scenario_web_def)
  with irrelevant_link_not_enqueued [of scenario_web scenario_cfg "[''x.test'']" "''https://x.test/''" 0
      "[]" "bfs_start [] 0" "''click here''" "''https://x.test/other/''"] a b
  have "process_links scenario_web scenario_cfg [''x.test''] ''https://x.test/'' 0
        [Anchor ''https://x.test/other/'' ''click here''] (bfs_start [] 0)
       = bfs_start [] 0"
    by simp
  with a b c d show ?thesis by simp
qed

text \<open>
  C7 as stated fails: the anchor \<open>Tools\<close> contains none of the fourteen keywords of the
  specification and is no document, and it is put on the queue and explored, since
  \<open>tools\<close> is one of the four further keywords of \<open>relevant_keywords\<close>.
\<close>

theorem topical_gate_counterexample:
  "spec_topical_score ''Tools'' ''https://x.test/tools/'' = 0
   \<and> \<not> is_pdf_url ''https://x.test/tools/''
   \<and> queue (bfs_iteration scenario_web scenario_cfg [''x.test''] (bfs_start [''https://x.test/''] 0))
       = [(''https://x.test/tools/'', 1)]
   \<and> urls_visited (discover_pdfs_bfs scenario_web scenario_cfg [''https://x.test/''] [''x.test''] 0)
       = [''https://x.test/'', ''https://x.test/tools/'']"
  by code_simp

text \<open>
  C8. A crawl that covers one state, Ohio, reports a completeness of one fiftieth: the
  number of states covered is divided by 50, while the table \<open>us_states\<close> has 51
  entries.
\<close>

theorem completeness_divides_by_50:
  "map_option regional_completeness
     (discover_regional_content_bfs ohio_web 2 [] [''https://x.test/''] [''x.test''] ''X'' 1 0)
     = Some (1 / 50)
   \<and> map_option res_state_coverage
     (discover_regional_content_bfs ohio_web 2 [] [''https://x.test/''] [''x.test''] ''X'' 1 0)
     = Some [''OH'']
   \<and> length us_states = 51"
  by (simp add: discover_regional_content_bfs_def ohio_run compile_results_def us_states_def)

text \<open>
  C9, as the code has it. The tag of a state is among the indicators exactly when the
  state is in the table and the lowercased URL contains its lowercased code between two
  slashes or passes the test for the code followed by an underscore, or the lowercased
  text contains the lowercased name of the state anywhere, inside a longer word as well.
\<close>

theorem state_tag_by_substring:
  "(''state_'' @ code) \<in> set (detect_regional_indicators url text) \<longleftrightarrow>
     (code \<in> set (map fst us_states)
        \<and> (sublist (''/'' @ lower code @ ''/'') (lower url) \<or> sublist (code @ ''_'') (lower url)))
     \<or> (\<exists>name. (code, name) \<in> set us_states \<and> sublist (lower name) (lower text))"
  by (rule state_tag_iff)

text \<open>
  C9 as stated fails: \<open>remained\<close> contains \<open>maine\<close>, so the text is tagged with
  Maine although neither the name nor the code of the state is a token of the text or of
  the URL.
\<close>

theorem state_tag_counterexample:
  "''state_ME'' \<in> set (detect_regional_indicators ''https://x.test/'' ''Claims remained open'')
   \<and> \<not> spec_whole_token ''maine'' (lower ''Claims remained open'')
   \<and> \<not> spec_whole_token ''me'' (lower ''Claims remained open'')
   \<and> \<not> spec_whole_token ''maine'' (lower ''https://x.test/'')
   \<and> \<not> spec_whole_token ''me'' (lower ''https://x.test/'')"
  by code_simp

text \<open>
  C10. With at least one seed, a first seed that \<open>urlparse\<close> accepts and no brace in
  its network location, the queue before the loop is the seeds at depth 0 with score 0,
  followed by the first twenty of the 160 URLs generated from the domain of the first
  seed (ten states, eight templates, code and name), each at depth 1 with score 5. It is
  the same whatever the web would serve, and the allowed domains have no part in it.
\<close>

theorem initial_frontier_state_urls:
  assumes "starting_urls = first_url # others"
    and "\<not> urlparse_raises w first_url"
    and "brace_free (base_domain_of w first_url)"
  shows "\<exists>state_urls.
      generate_state_specific_urls w first_url (base_domain_of w first_url) = Inr state_urls
      \<and> length state_urls = 160
      \<and> initial_frontier w starting_urls =
          Inr (map (\<lambda>url. (url, 0, 0)) starting_urls
               @ map (\<lambda>url. (url, 1, 5)) (take 20 state_urls))
      \<and> length (take 20 state_urls) = 20
      \<and> initial_frontier (w\<lparr>get_page := pages, latency := delays\<rparr>) starting_urls
          = initial_frontier w starting_urls"
proof -
  obtain state_urls where su:
    "generate_state_specific_urls w first_url (base_domain_of w first_url) = Inr state_urls"
    "length state_urls = 160"
    using generate_state_specific_urls_Inr [OF assms(3)] by blast
  let ?w = "w\<lparr>get_page := pages, latency := delays\<rparr>"
  have same: "str_format ?w template v = str_format w template v" for template v
    by (simp add: str_format_def split: option.splits)
  have "fill_patterns ?w ps code name = fill_patterns w ps code name" for ps code name
    by (induction ps) (simp_all add: same split: sum.splits)
  then have "generate_for_states ?w ps codes = generate_for_states w ps codes" for ps codes
    by (induction codes) (simp_all split: sum.splits option.splits)
  then have "generate_state_specific_urls ?w first_url (base_domain_of ?w first_url)
      = generate_state_specific_urls w first_url (base_domain_of w first_url)"
    by (simp add: generate_state_specific_urls_def base_domain_of_def)
  with su assms show ?thesis
    by (simp add: initial_frontier_def)
qed

theorem initial_frontier_state_urls_witness:
  "\<not> urlparse_raises ohio_web ''https://providers.anthem.com/''
   \<and> brace_free (base_domain_of ohio_web ''https://providers.anthem.com/'')
   \<and> map_sum id length
     (initial_frontier ohio_web [''https://providers.anthem.com/'', ''https://www.anthem.com/provider/''])
     = Inr 22
   \<and> map_sum id (take 4)
     (initial_frontier ohio_web [''https://providers.anthem.com/'', ''https://www.anthem.com/provider/''])
     = Inr [(''https://providers.anthem.com/'', 0, 0), (''https://www.anthem.com/provider/'', 0, 0),
            (''https://www.anthem.com/providers/ca/'', 1, 5),
            (''https://www.anthem.com/providers/california/'', 1, 5)]"
proof -
  have e: "map_sum id (take 4)
     (initial_frontier ohio_web [''https://providers.anthem.com/'', ''https://www.anthem.com/provider/''])
     = Inr [(''https://providers.anthem.com/'', 0, 0), (''https://www.anthem.com/provider/'', 0, 0),
            (''https://www.anthem.com/providers/ca/'', 1, 5),
            (''https://www.anthem.com/providers/california/'', 1, 5)]"
    by code_simp
  have seeds: "[''https://providers.anthem.com/'', ''https://www.anthem.com/provider/'']
      = ''https://providers.anthem.com/'' # [''https://www.anthem.com/provider/'']"
    by simp
  have parses: "\<not> urlparse_raises ohio_web ''https://providers.anthem.com/''"
    by code_simp
  have no_brace: "brace_free (base_domain_of ohio_web ''https://providers.anthem.com/'')"
    by code_simp
  from initial_frontier_state_urls [OF seeds parses no_brace,
      where pages = "get_page ohio_web" and delays = "latency ohio_web"]
  obtain state_urls where "length state_urls = 160"
    "initial_frontier ohio_web [''https://providers.anthem.com/'', ''https://www.anthem.com/provider/'']
       = Inr (map (\<lambda>url. (url, 0, 0)) [''https://providers.anthem.com/'', ''https://www.anthem.com/provider/'']
              @ map (\<lambda>url. (url, 1, 5)) (take 20 state_urls))"
    by blast
  then have "map_sum id length
     (initial_frontier ohio_web [''https://providers.anthem.com/'', ''https://www.anthem.com/provider/''])
     = Inr 22"
    by simp
  with e parses no_brace show ?thesis by simp
qed

end
